theory Spec2Isabelle
  imports Main "HOL-Library.Word" "HOL-Library.Char_ord" "HOL-Library.List_Lexorder"
    "HOL-Library.AList"
begin

unbundle bit_operations_syntax

section \<open>Error values (utils/errors.go)\<close>

text \<open>
  The operating system reports a failure as an errno. Only the distinction the code
  draws matters: \<open>errors.Is(err, os.ErrPermission)\<close> holds for \<open>EACCES\<close> and
  \<open>EPERM\<close>, \<open>errors.Is(err, os.ErrNotExist)\<close> for \<open>ENOENT\<close>.
\<close>

datatype errno = ENOENT | EACCES | EPERM | EIO | ENOSPC | EISDIR | ENOTDIR | ENOTEMPTY

fun errno_string :: "errno \<Rightarrow> string" where
  "errno_string ENOENT = ''no such file or directory''"
| "errno_string EACCES = ''permission denied''"
| "errno_string EPERM = ''operation not permitted''"
| "errno_string EIO = ''input/output error''"
| "errno_string ENOSPC = ''no space left on device''"
| "errno_string EISDIR = ''is a directory''"
| "errno_string ENOTDIR = ''not a directory''"
| "errno_string ENOTEMPTY = ''directory not empty''"

text \<open>
  Go's \<open>error\<close> values, as far as the repository builds and inspects them:
  \<^item> \<open>PathError op path e\<close>: what the \<open>os\<close> calls return (\<open>*fs.PathError\<close>);
  \<^item> \<open>EOF\<close>: \<open>io.EOF\<close>;
  \<^item> \<open>ErrBadPattern\<close>: \<open>filepath.ErrBadPattern\<close>;
  \<^item> \<open>ErrorsNew s\<close>: \<open>errors.New(s)\<close>, and \<open>fmt.Errorf\<close> with no wrapped operand;
  \<^item> \<open>Wrapped prefix e\<close>: \<open>fmt.Errorf(prefix + ": %w", e)\<close>, which unwraps to \<open>e\<close>;
  \<^item> \<open>BackupError\<close>: the struct of utils/errors.go. It has an \<open>Error\<close> method and
    no \<open>Unwrap\<close> method.
\<close>

datatype go_error =
    PathError string string errno
  | EOF
  | ErrBadPattern
  | ErrorsNew string
  | Wrapped string go_error
  | BackupError string (Operation: string) go_error (Retryable: bool)

fun Error :: "go_error \<Rightarrow> string" where
  "Error (PathError opn path e) = opn @ '' '' @ path @ '': '' @ errno_string e"
| "Error EOF = ''EOF''"
| "Error ErrBadPattern = ''syntax error in pattern''"
| "Error (ErrorsNew s) = s"
| "Error (Wrapped prefix e) = prefix @ '': '' @ Error e"
| "Error (BackupError path opn e r) =
     ''backup error ['' @ opn @ ''] '' @ path @ '': '' @ Error e"

text \<open>\<open>errors.As(err, &backupErr)\<close>: the first \<open>*BackupError\<close> on the unwrap chain.\<close>

fun errors_As_BackupError :: "go_error \<Rightarrow> go_error option" where
  "errors_As_BackupError (BackupError path opn e r) = Some (BackupError path opn e r)"
| "errors_As_BackupError (Wrapped prefix e) = errors_As_BackupError e"
| "errors_As_BackupError _ = None"

text \<open>\<open>errors.Is(err, os.ErrPermission)\<close> and \<open>errors.Is(err, os.ErrNotExist)\<close>.\<close>

fun errors_Is_ErrPermission :: "go_error \<Rightarrow> bool" where
  "errors_Is_ErrPermission (PathError opn path e) = (e = EACCES \<or> e = EPERM)"
| "errors_Is_ErrPermission (Wrapped prefix e) = errors_Is_ErrPermission e"
| "errors_Is_ErrPermission _ = False"

fun errors_Is_ErrNotExist :: "go_error \<Rightarrow> bool" where
  "errors_Is_ErrNotExist (PathError opn path e) = (e = ENOENT)"
| "errors_Is_ErrNotExist (Wrapped prefix e) = errors_Is_ErrNotExist e"
| "errors_Is_ErrNotExist _ = False"

definition IsRetryable :: "go_error \<Rightarrow> bool" where
  "IsRetryable err =
     (case errors_As_BackupError err of
        Some backupErr \<Rightarrow> Retryable backupErr
      | None \<Rightarrow>
          if errors_Is_ErrPermission err then True
          else if errors_Is_ErrNotExist err then False
          else False)"

section \<open>The world the program runs in\<close>

text \<open>
  A \<open>time.Duration\<close> is an \<open>int64\<close> count of nanoseconds: \<open>delay *= 2\<close> wraps.
\<close>

type_synonym duration = "64 word"

definition Millisecond :: duration where
  "Millisecond = 1000000"

text \<open>
  The file system is a table from cleaned paths to nodes. Every system call first
  consults the environment's fault schedule: the \<open>n\<close>-th call of a run fails with
  \<open>faults n\<close> when that is set, and behaves as the table says otherwise. The calls
  of \<open>time.Sleep\<close> and the lines the logger prints are recorded in order.
\<close>

datatype node = File (content: string) (perm: nat) | Dir (perm: nat)

datatype log_entry =
    LogError string
  | LogWarning string
  | LogInfo string
  | LogFileCreated string
  | LogFileModified string
  | LogFileRenamed string
  | LogFileDeleted string
  | LogBackupCreated string string
  | LogBackupSkipped string string

record world =
  fs :: "(string \<times> node) list"
  faults :: "nat \<Rightarrow> errno option"
  syscalls :: nat
  slept :: "duration list"
  logged :: "log_entry list"

definition time_Sleep :: "duration \<Rightarrow> world \<Rightarrow> world" where
  "time_Sleep d w = w\<lparr>slept := slept w @ [d]\<rparr>"

definition logger :: "log_entry \<Rightarrow> world \<Rightarrow> world" where
  "logger l w = w\<lparr>logged := logged w @ [l]\<rparr>"

section \<open>RetryWithBackoff (utils/errors.go)\<close>

text \<open>\<open>strconv\<close>-style decimal rendering, as \<open>%d\<close> prints an \<open>int\<close>.\<close>

definition digit_char :: "nat \<Rightarrow> char" where
  "digit_char n = ''0123456789'' ! n"

function utoa :: "nat \<Rightarrow> string" where
  "utoa n = (if n < 10 then [digit_char n] else utoa (n div 10) @ [digit_char (n mod 10)])"
  by pat_completeness auto
termination
  by (relation "measure id") auto

declare utoa.simps [simp del]

definition itoa :: "int \<Rightarrow> string" where
  "itoa i = (if i < 0 then CHR ''-'' # utoa (nat (- i)) else utoa (nat i))"

text \<open>
  \<open>fmt.Errorf("exceed max retries (%d): %w", maxRetries, lastErr)\<close>. With a nil
  operand the verb \<open>%w\<close> wraps nothing and prints \<open>%!w(<nil>)\<close>; the result is a
  non-nil error all the same.
\<close>

definition exceed_max_retries :: "int \<Rightarrow> go_error option \<Rightarrow> go_error" where
  "exceed_max_retries maxRetries lastErr =
     (case lastErr of
        None \<Rightarrow> ErrorsNew (''exceed max retries ('' @ itoa maxRetries @ ''): %!w(<nil>)'')
      | Some e \<Rightarrow> Wrapped (''exceed max retries ('' @ itoa maxRetries @ '')'') e)"

text \<open>
  The loop \<open>for i := range maxRetries\<close>, with the loop variables as arguments. The
  operation \<open>fn\<close> is a closure over the world: it returns its error (or nil) and the
  world it leaves.
\<close>

function retry_loop ::
  "int \<Rightarrow> int \<Rightarrow> duration \<Rightarrow> go_error option \<Rightarrow> (world \<Rightarrow> go_error option \<times> world) \<Rightarrow> world
     \<Rightarrow> go_error option \<times> world" where
  "retry_loop maxRetries i delay lastErr fn w =
     (if i < maxRetries then
        (case fn w of
           (Some err, w') \<Rightarrow>
             if \<not> IsRetryable err then (Some err, w')
             else if i < maxRetries - 1
               then retry_loop maxRetries (i + 1) (delay * 2) (Some err) fn (time_Sleep delay w')
               else retry_loop maxRetries (i + 1) delay (Some err) fn w'
         | (None, w') \<Rightarrow> (None, w'))
      else (Some (exceed_max_retries maxRetries lastErr), w))"
  by pat_completeness auto
termination
  by (relation "measure (\<lambda>(maxRetries, i, delay, lastErr, fn, w). nat (maxRetries - i))") auto

declare retry_loop.simps [simp del]

definition RetryWithBackoff ::
  "int \<Rightarrow> duration \<Rightarrow> (world \<Rightarrow> go_error option \<times> world) \<Rightarrow> world \<Rightarrow> go_error option \<times> world" where
  "RetryWithBackoff maxRetries initialDelay fn w = retry_loop maxRetries 0 initialDelay None fn w"

section \<open>System calls\<close>

text \<open>
  Each call of the \<open>os\<close> package asks the fault schedule first. What a call does when
  the schedule lets it through is read off the table: a \<open>stat\<close>, \<open>open\<close> or
  \<open>remove\<close> of a missing path fails with \<open>ENOENT\<close>.
\<close>

definition syscall :: "world \<Rightarrow> errno option \<times> world" where
  "syscall w = (faults w (syscalls w), w\<lparr>syscalls := Suc (syscalls w)\<rparr>)"

definition IsDir :: "node \<Rightarrow> bool" where
  "IsDir n = (case n of Dir m \<Rightarrow> True | File c m \<Rightarrow> False)"

definition Mode :: "node \<Rightarrow> nat" where
  "Mode n = perm n"

definition os_Stat :: "string \<Rightarrow> world \<Rightarrow> (go_error + node) \<times> world" where
  "os_Stat name w =
     (case syscall w of
        (Some e, w') \<Rightarrow> (Inl (PathError ''stat'' name e), w')
      | (None, w') \<Rightarrow>
          (case map_of (fs w') name of
             None \<Rightarrow> (Inl (PathError ''stat'' name ENOENT), w')
           | Some n \<Rightarrow> (Inr n, w')))"

definition os_Lstat :: "string \<Rightarrow> world \<Rightarrow> (go_error + node) \<times> world" where
  "os_Lstat name w =
     (case syscall w of
        (Some e, w') \<Rightarrow> (Inl (PathError ''lstat'' name e), w')
      | (None, w') \<Rightarrow>
          (case map_of (fs w') name of
             None \<Rightarrow> (Inl (PathError ''lstat'' name ENOENT), w')
           | Some n \<Rightarrow> (Inr n, w')))"

text \<open>\<open>os.IsNotExist(err)\<close>, applied to what \<open>os.Stat\<close> returned (nil included).\<close>

definition os_IsNotExist :: "go_error + node \<Rightarrow> bool" where
  "os_IsNotExist r = (case r of Inl (PathError opn path e) \<Rightarrow> e = ENOENT | _ \<Rightarrow> False)"

definition os_Open :: "string \<Rightarrow> world \<Rightarrow> go_error option \<times> world" where
  "os_Open name w =
     (case syscall w of
        (Some e, w') \<Rightarrow> (Some (PathError ''open'' name e), w')
      | (None, w') \<Rightarrow>
          (case map_of (fs w') name of
             None \<Rightarrow> (Some (PathError ''open'' name ENOENT), w')
           | Some n \<Rightarrow> (None, w')))"

text \<open>
  \<open>os.Create\<close> truncates an existing file (keeping its mode) and creates a missing
  one with mode 0644 (0666 under the usual umask).
\<close>

definition os_Create :: "string \<Rightarrow> world \<Rightarrow> go_error option \<times> world" where
  "os_Create name w =
     (case syscall w of
        (Some e, w') \<Rightarrow> (Some (PathError ''open'' name e), w')
      | (None, w') \<Rightarrow>
          (case map_of (fs w') name of
             Some (Dir m) \<Rightarrow> (Some (PathError ''open'' name EISDIR), w')
           | Some (File c m) \<Rightarrow> (None, w'\<lparr>fs := AList.update name (File [] m) (fs w')\<rparr>)
           | None \<Rightarrow> (None, w'\<lparr>fs := AList.update name (File [] 420) (fs w')\<rparr>)))"

text \<open>
  \<open>srcFile.Read(buf)\<close> with a buffer of \<open>32*1024\<close> bytes. \<open>pending\<close> are the bytes
  the open source file has not delivered yet; at their end the call returns \<open>0, io.EOF\<close>.
\<close>

definition os_Read :: "string \<Rightarrow> string \<Rightarrow> world \<Rightarrow> string \<times> go_error option \<times> world" where
  "os_Read name pending w =
     (case syscall w of
        (Some e, w') \<Rightarrow> ([], Some (PathError ''read'' name e), w')
      | (None, w') \<Rightarrow>
          if pending = [] then ([], Some EOF, w')
          else (take (32 * 1024) pending, None, w'))"

definition os_Write :: "string \<Rightarrow> string \<Rightarrow> world \<Rightarrow> go_error option \<times> world" where
  "os_Write name bytes w =
     (case syscall w of
        (Some e, w') \<Rightarrow> (Some (PathError ''write'' name e), w')
      | (None, w') \<Rightarrow>
          (case map_of (fs w') name of
             Some (File c m) \<Rightarrow> (None, w'\<lparr>fs := AList.update name (File (c @ bytes) m) (fs w')\<rparr>)
           | _ \<Rightarrow> (None, w')))"

definition os_Chmod :: "string \<Rightarrow> nat \<Rightarrow> world \<Rightarrow> go_error option \<times> world" where
  "os_Chmod name m w =
     (case syscall w of
        (Some e, w') \<Rightarrow> (Some (PathError ''chmod'' name e), w')
      | (None, w') \<Rightarrow>
          (case map_of (fs w') name of
             None \<Rightarrow> (Some (PathError ''chmod'' name ENOENT), w')
           | Some (File c m') \<Rightarrow> (None, w'\<lparr>fs := AList.update name (File c m) (fs w')\<rparr>)
           | Some (Dir m') \<Rightarrow> (None, w'\<lparr>fs := AList.update name (Dir m) (fs w')\<rparr>)))"

text \<open>\<open>os.Remove\<close>: a directory that still has entries is not removed.\<close>

definition has_entries :: "string \<Rightarrow> (string \<times> node) list \<Rightarrow> bool" where
  "has_entries name tbl =
     (\<exists>q \<in> set (map fst tbl). length name < length q \<and> take (Suc (length name)) q = name @ ''/'')"

definition os_Remove :: "string \<Rightarrow> world \<Rightarrow> go_error option \<times> world" where
  "os_Remove name w =
     (case syscall w of
        (Some e, w') \<Rightarrow> (Some (PathError ''remove'' name e), w')
      | (None, w') \<Rightarrow>
          (case map_of (fs w') name of
             None \<Rightarrow> (Some (PathError ''remove'' name ENOENT), w')
           | Some n \<Rightarrow>
               if IsDir n \<and> has_entries name (fs w')
               then (Some (PathError ''remove'' name ENOTEMPTY), w')
               else (None, w'\<lparr>fs := AList.delete name (fs w')\<rparr>)))"

text \<open>
  \<open>os.MkdirAll\<close>: nothing to do when the path is a directory; otherwise every missing
  directory on the way is created. A file in the way fails the call with \<open>ENOTDIR\<close>.
\<close>

definition ancestors :: "string \<Rightarrow> string list" where
  "ancestors path = [take i path. i \<leftarrow> [1..<length path], path ! i = CHR ''/'']"

definition mkdir_missing :: "nat \<Rightarrow> string \<Rightarrow> (string \<times> node) list \<Rightarrow> (string \<times> node) list" where
  "mkdir_missing m d tbl = (case map_of tbl d of None \<Rightarrow> AList.update d (Dir m) tbl | Some n \<Rightarrow> tbl)"

definition os_MkdirAll :: "string \<Rightarrow> nat \<Rightarrow> world \<Rightarrow> go_error option \<times> world" where
  "os_MkdirAll path m w =
     (case syscall w of
        (Some e, w') \<Rightarrow> (Some (PathError ''mkdir'' path e), w')
      | (None, w') \<Rightarrow>
          (case find (\<lambda>d. case map_of (fs w') d of Some (File c m') \<Rightarrow> True | _ \<Rightarrow> False)
                  (ancestors path @ [path]) of
             Some d \<Rightarrow> (Some (PathError ''mkdir'' d ENOTDIR), w')
           | None \<Rightarrow> (None, w'\<lparr>fs := fold (mkdir_missing m) (ancestors path @ [path]) (fs w')\<rparr>)))"

section \<open>SafeCopyFile (utils/errors.go)\<close>

text \<open>
  The streaming loop of the closure. A chunk that was read is written before the read's
  own error is looked at; a write error and a read error other than end-of-file end the
  attempt with a retryable \<open>BackupError\<close>.
\<close>

function copy_loop :: "string \<Rightarrow> string \<Rightarrow> string \<Rightarrow> world \<Rightarrow> go_error option \<times> world" where
  "copy_loop src dst pending w =
     (case os_Read src pending w of
        (chunk, rerr, w1) \<Rightarrow>
          (case (if chunk \<noteq> [] then os_Write dst chunk w1 else (None, w1)) of
             (Some err, w2) \<Rightarrow> (Some (BackupError dst ''write'' err True), w2)
           | (None, w2) \<Rightarrow>
               (case rerr of
                  Some err \<Rightarrow>
                    if Error err = ''EOF'' then (None, w2)
                    else (Some (BackupError src ''read'' err True), w2)
                | None \<Rightarrow> copy_loop src dst (drop (length chunk) pending) w2)))"
  by pat_completeness auto
termination
proof (relation "measure (\<lambda>(src, dst, pending, w). length pending)")
  show "wf (measure (\<lambda>(src, dst, pending, w). length pending))" by simp
next
  fix src dst pending :: string and w w1 w2 :: world and chunk :: string
    and rerr :: "go_error option" and x :: "go_error option \<times> world"
    and y :: "go_error option" and z :: "go_error option \<times> world"
  assume "(chunk, z) = os_Read src pending w" "(rerr, w1) = z" "rerr = None"
  then have "os_Read src pending w = (chunk, None, w1)" by simp
  then have "pending \<noteq> [] \<and> chunk = take (32 * 1024) pending"
    by (auto simp: os_Read_def split: prod.splits option.splits if_splits)
  then have "length (drop (length chunk) pending) < length pending"
    by (cases pending) auto
  then show "((src, dst, drop (length chunk) pending, w2), (src, dst, pending, w))
               \<in> measure (\<lambda>(src, dst, pending, w). length pending)"
    by simp
qed

declare copy_loop.simps [simp del]

text \<open>
  The bytes the open source file delivers. They are read after the destination was
  created, so a source that is its own destination is already truncated.
\<close>

definition srcFile_bytes :: "string \<Rightarrow> world \<Rightarrow> string" where
  "srcFile_bytes src w = (case map_of (fs w) src of Some (File c m) \<Rightarrow> c | _ \<Rightarrow> [])"

text \<open>
  One attempt: the closure \<open>SafeCopyFile\<close> hands to \<open>RetryWithBackoff\<close>. The deferred
  \<open>Close\<close> calls return nothing the closure looks at and are left out.
\<close>

definition copy_attempt :: "string \<Rightarrow> string \<Rightarrow> world \<Rightarrow> go_error option \<times> world" where
  "copy_attempt src dst w =
     (case os_Stat src w of
        (Inl err, w1) \<Rightarrow>
          (Some (BackupError src ''stat_source'' err (errors_Is_ErrPermission err)), w1)
      | (Inr srcInfo, w1) \<Rightarrow>
          if IsDir srcInfo
          then (Some (BackupError src ''check_type'' (ErrorsNew ''source is a directory'') False), w1)
          else
            (case os_Open src w1 of
               (Some err, w2) \<Rightarrow>
                 (Some (BackupError src ''open_source'' err (errors_Is_ErrPermission err)), w2)
             | (None, w2) \<Rightarrow>
                 (case os_Create dst w2 of
                    (Some err, w3) \<Rightarrow>
                      (Some (BackupError dst ''create_destination'' err
                               (errors_Is_ErrPermission err)), w3)
                  | (None, w3) \<Rightarrow>
                      (case copy_loop src dst (srcFile_bytes src w3) w3 of
                         (Some err, w4) \<Rightarrow> (Some err, w4)
                       | (None, w4) \<Rightarrow>
                           (case os_Chmod dst (Mode srcInfo) w4 of
                              (Some err, w5) \<Rightarrow> (None, w5)
                            | (None, w5) \<Rightarrow> (None, w5))))))"

definition SafeCopyFile :: "string \<Rightarrow> string \<Rightarrow> int \<Rightarrow> world \<Rightarrow> go_error option \<times> world" where
  "SafeCopyFile src dst maxRetries w =
     RetryWithBackoff maxRetries (100 * Millisecond) (copy_attempt src dst) w"

section \<open>Paths (path/filepath on Unix)\<close>

text \<open>
  The library functions the repository calls, after their documentation. Paths are
  byte strings and the separator is \<open>/\<close>.
\<close>

fun components :: "string \<Rightarrow> string list" where
  "components [] = [[]]"
| "components (c # cs) =
     (if c = CHR ''/'' then [] # components cs
      else (case components cs of x # xs \<Rightarrow> (c # x) # xs | [] \<Rightarrow> [[c]]))"

fun strings_Join :: "string list \<Rightarrow> string \<Rightarrow> string" where
  "strings_Join [] sep = []"
| "strings_Join [x] sep = x"
| "strings_Join (x # y # ys) sep = x @ sep @ strings_Join (y # ys) sep"

text \<open>
  \<open>Clean\<close>: empty and \<open>.\<close> elements are dropped, a \<open>..\<close> element removes the
  element before it, and a \<open>..\<close> with nothing before it is kept unless the path is rooted.
\<close>

fun clean_step :: "bool \<Rightarrow> nat \<times> string list \<Rightarrow> string \<Rightarrow> nat \<times> string list" where
  "clean_step rooted (ups, elems) c =
     (if c = [] \<or> c = ''.'' then (ups, elems)
      else if c = ''..'' then
        (if elems \<noteq> [] then (ups, butlast elems)
         else if rooted then (ups, elems)
         else (Suc ups, elems))
      else (ups, elems @ [c]))"

definition Clean :: "string \<Rightarrow> string" where
  "Clean path =
     (if path = [] then ''.''
      else
        (let rooted = (hd path = CHR ''/'') in
         case foldl (clean_step rooted) (0, []) (components path) of
           (ups, elems) \<Rightarrow>
             (let body = strings_Join (replicate ups ''..'' @ elems) ''/'' in
              if rooted then CHR ''/'' # body
              else if body = [] then ''.''
              else body)))"

definition Join :: "string \<Rightarrow> string \<Rightarrow> string" where
  "Join a b =
     (if a \<noteq> [] then Clean (a @ ''/'' @ b)
      else if b \<noteq> [] then Clean b
      else [])"

definition Base :: "string \<Rightarrow> string" where
  "Base path =
     (if path = [] then ''.''
      else
        (let stripped = rev (dropWhile (\<lambda>c. c = CHR ''/'') (rev path));
             b = rev (takeWhile (\<lambda>c. c \<noteq> CHR ''/'') (rev stripped))
         in if b = [] then ''/'' else b))"

definition Ext :: "string \<Rightarrow> string" where
  "Ext path =
     (let final = takeWhile (\<lambda>c. c \<noteq> CHR ''/'') (rev path) in
      if CHR ''.'' \<in> set final
      then CHR ''.'' # rev (takeWhile (\<lambda>c. c \<noteq> CHR ''.'') final)
      else [])"

definition TrimSuffix :: "string \<Rightarrow> string \<Rightarrow> string" where
  "TrimSuffix s suffix =
     (if length suffix \<le> length s \<and> drop (length s - length suffix) s = suffix
      then take (length s - length suffix) s
      else s)"

text \<open>
  \<open>Rel\<close> compares the cleaned paths element by element. It fails when one path is
  rooted and the other is not, and when the first element of the base that differs
  is \<open>..\<close>.
\<close>

definition elements :: "string \<Rightarrow> string list" where
  "elements s = (let cs = components s in if last cs = [] then butlast cs else cs)"

fun strip_common :: "string list \<Rightarrow> string list \<Rightarrow> string list \<times> string list" where
  "strip_common (b # bs) (t # ts) = (if b = t then strip_common bs ts else (b # bs, t # ts))"
| "strip_common bs ts = (bs, ts)"

definition Rel :: "string \<Rightarrow> string \<Rightarrow> go_error + string" where
  "Rel basepath targpath =
     (let base0 = Clean basepath; targ = Clean targpath in
      if targ = base0 then Inr ''.''
      else
        (let base = (if base0 = ''.'' then [] else base0);
             baseSlashed = (base \<noteq> [] \<and> hd base = CHR ''/'');
             targSlashed = (targ \<noteq> [] \<and> hd targ = CHR ''/'');
             failure = ErrorsNew (''Rel: can't make '' @ targpath @ '' relative to '' @ basepath)
         in if baseSlashed \<noteq> targSlashed then Inl failure
            else
              (case strip_common (elements base) (elements targ) of
                 (b, t) \<Rightarrow>
                   if b \<noteq> [] \<and> t \<noteq> [] \<and> hd b = ''..'' then Inl failure
                   else if b \<noteq> [] then Inr (strings_Join (replicate (length b) ''..'' @ t) ''/'')
                   else Inr (strings_Join t ''/''))))"

text \<open>\<open>strings.Contains\<close>.\<close>

fun Contains :: "string \<Rightarrow> string \<Rightarrow> bool" where
  "Contains [] substr = (substr = [])"
| "Contains (c # cs) substr = (take (length substr) (c # cs) = substr \<or> Contains cs substr)"

section \<open>Glob patterns (path/filepath)\<close>

text \<open>
  \<open>Match\<close> after the documented pattern syntax: \<open>*\<close> matches any sequence of
  non-separator characters, \<open>?\<close> one non-separator character, \<open>[...]\<close> a character
  class (not empty, \<open>^\<close> negates it, \<open>lo-hi\<close> is a range), a backslash quotes the
  next character, and any other character matches itself. A malformed pattern is
  \<open>ErrBadPattern\<close>. Names are taken byte by byte (ASCII).
\<close>

datatype glob_term = Star | AnyChar | Class bool "(char \<times> char) list" | Lit char

fun getEsc :: "string \<Rightarrow> (char \<times> string) option" where
  "getEsc [] = None"
| "getEsc (c # cs) =
     (if c = CHR ''-'' \<or> c = CHR '']'' then None
      else if c = CHR 0x5C then
        (case cs of [] \<Rightarrow> None | d # ds \<Rightarrow> if ds = [] then None else Some (d, ds))
      else if cs = [] then None
      else Some (c, cs))"

function class_ranges :: "bool \<Rightarrow> string \<Rightarrow> ((char \<times> char) list \<times> string) option" where
  "class_ranges first chunk =
     (if chunk \<noteq> [] \<and> hd chunk = CHR '']'' \<and> \<not> first then Some ([], tl chunk)
      else
        (case getEsc chunk of
           None \<Rightarrow> None
         | Some (lo, rest) \<Rightarrow>
             if hd rest = CHR ''-'' then
               (case getEsc (tl rest) of
                  None \<Rightarrow> None
                | Some (hi, rest') \<Rightarrow>
                    map_option (\<lambda>(rs, r). ((lo, hi) # rs, r)) (class_ranges False rest'))
             else map_option (\<lambda>(rs, r). ((lo, lo) # rs, r)) (class_ranges False rest)))"
  by pat_completeness auto
termination
proof (relation "measure (\<lambda>(first, chunk). length chunk)")
  have shorter: "length r < length c" if "getEsc c = Some (x, r)" for c r x
    using that by (cases c) (auto split: if_splits list.splits)
  show "wf (measure (\<lambda>(first, chunk). length chunk))" by simp
  show "((False, rest'), (first, chunk)) \<in> measure (\<lambda>(first, chunk). length chunk)"
    if "getEsc chunk = Some x2" "(lo, rest) = x2" "getEsc (tl rest) = Some x2a" "(hi, rest') = x2a"
    for first chunk x2 lo rest x2a hi rest'
  proof -
    have "length rest < length chunk" using that shorter[of chunk lo rest] by simp
    moreover have "length rest' < length (tl rest)"
      using that shorter[of "tl rest" hi rest'] by simp
    ultimately show ?thesis by simp
  qed
  show "((False, rest), (first, chunk)) \<in> measure (\<lambda>(first, chunk). length chunk)"
    if "getEsc chunk = Some x2" "(lo, rest) = x2"
    for first chunk x2 lo rest
    using that shorter[of chunk lo rest] by simp
qed

declare class_ranges.simps [simp del]

function parse_terms :: "string \<Rightarrow> glob_term list option" where
  "parse_terms pattern =
     (case pattern of
        [] \<Rightarrow> Some []
      | c # cs \<Rightarrow>
          if c = CHR ''*'' then map_option (Cons Star) (parse_terms cs)
          else if c = CHR ''?'' then map_option (Cons AnyChar) (parse_terms cs)
          else if c = CHR ''['' then
            (case class_ranges True (if cs \<noteq> [] \<and> hd cs = CHR ''^'' then tl cs else cs) of
               None \<Rightarrow> None
             | Some (rs, rest) \<Rightarrow>
                 map_option (Cons (Class (cs \<noteq> [] \<and> hd cs = CHR ''^'') rs)) (parse_terms rest))
          else if c = CHR 0x5C then
            (case cs of [] \<Rightarrow> None | d # ds \<Rightarrow> map_option (Cons (Lit d)) (parse_terms ds))
          else map_option (Cons (Lit c)) (parse_terms cs))"
  by pat_completeness auto
termination
proof (relation "measure length")
  have shorter: "length r < length c" if "getEsc c = Some (x, r)" for c r x
    using that by (cases c) (auto split: if_splits list.splits)
  have ranges: "class_ranges f c = Some (rs, r) \<Longrightarrow> length r \<le> length c" for f c rs r
  proof (induction f c arbitrary: rs r rule: class_ranges.induct)
    case (1 first chunk)
    show ?case
    proof (cases "chunk \<noteq> [] \<and> hd chunk = CHR '']'' \<and> \<not> first")
      case True
      with "1.prems" show ?thesis by (subst (asm) class_ranges.simps) auto
    next
      case False
      with "1.prems" obtain lo rest where g: "getEsc chunk = Some (lo, rest)"
        by (subst (asm) class_ranges.simps) (auto split: option.splits)
      show ?thesis
      proof (cases "hd rest = CHR ''-''")
        case dash: True
        with False g "1.prems" obtain hi rest' where
          h: "getEsc (tl rest) = Some (hi, rest')"
          by (subst (asm) class_ranges.simps) (auto split: option.splits)
        with False g dash "1.prems" obtain rs' where
          "class_ranges False rest' = Some (rs', r)"
          by (subst (asm) class_ranges.simps) (auto split: option.splits)
        from "1.IH"(1)[OF False g refl dash h refl this]
        have "length r \<le> length rest'" .
        with shorter[OF g] shorter[OF h] show ?thesis by simp
      next
        case nodash: False
        with False g "1.prems" obtain rs' where
          "class_ranges False rest = Some (rs', r)"
          by (subst (asm) class_ranges.simps) (auto split: option.splits)
        from "1.IH"(2)[OF False g refl nodash this]
        have "length r \<le> length rest" .
        with shorter[OF g] show ?thesis by simp
      qed
    qed
  qed
  show "wf (measure length)" by simp
  show "(cs, pattern) \<in> measure length" if "pattern = c # cs" for pattern c cs
    using that by simp
  show "(cs, pattern) \<in> measure length" if "pattern = c # cs" for pattern c cs
    using that by simp
  show "(rest, pattern) \<in> measure length"
    if "pattern = c # cs"
      "class_ranges True (if cs \<noteq> [] \<and> hd cs = CHR ''^'' then tl cs else cs) = Some x2"
      "(rs, rest) = x2"
    for pattern c cs x2 rs rest
  proof -
    have "length rest \<le> length (if cs \<noteq> [] \<and> hd cs = CHR ''^'' then tl cs else cs)"
      using that ranges by metis
    also have "\<dots> \<le> length cs" by simp
    finally show ?thesis using that by simp
  qed
  show "(ds, pattern) \<in> measure length" if "pattern = c # cs" "cs = d # ds"
    for pattern c cs d ds
    using that by simp
  show "(cs, pattern) \<in> measure length" if "pattern = c # cs" for pattern c cs
    using that by simp
qed

declare parse_terms.simps [simp del]

fun match_terms :: "glob_term list \<Rightarrow> string \<Rightarrow> bool" where
  "match_terms [] name = (name = [])"
| "match_terms (Star # ts) name =
     (match_terms ts name \<or>
      (case name of [] \<Rightarrow> False | c # cs \<Rightarrow> c \<noteq> CHR ''/'' \<and> match_terms (Star # ts) cs))"
| "match_terms (AnyChar # ts) name =
     (case name of [] \<Rightarrow> False | c # cs \<Rightarrow> c \<noteq> CHR ''/'' \<and> match_terms ts cs)"
| "match_terms (Class negated rs # ts) name =
     (case name of
        [] \<Rightarrow> False
      | c # cs \<Rightarrow> (list_ex (\<lambda>(lo, hi). lo \<le> c \<and> c \<le> hi) rs \<noteq> negated) \<and> match_terms ts cs)"
| "match_terms (Lit a # ts) name =
     (case name of [] \<Rightarrow> False | c # cs \<Rightarrow> a = c \<and> match_terms ts cs)"

definition Match :: "string \<Rightarrow> string \<Rightarrow> bool \<times> go_error option" where
  "Match pattern name =
     (case parse_terms pattern of
        None \<Rightarrow> (False, Some ErrBadPattern)
      | Some ts \<Rightarrow> (match_terms ts name, None))"

text \<open>
  \<open>Glob\<close> returns the existing paths that match the pattern element by element, in
  sorted order. Its only error is \<open>ErrBadPattern\<close>; an I/O error while it reads a
  directory is ignored and leaves the matches out.
\<close>

definition glob_match :: "string \<Rightarrow> string \<Rightarrow> bool" where
  "glob_match pattern path =
     list_all2 (\<lambda>a b. fst (Match a b)) (components pattern) (components path)"

definition Glob :: "string \<Rightarrow> world \<Rightarrow> (go_error + string list) \<times> world" where
  "Glob pattern w =
     (if snd (Match pattern []) \<noteq> None \<or>
         list_ex (\<lambda>a. snd (Match a []) \<noteq> None) (components pattern)
      then (Inl ErrBadPattern, w)
      else
        (case syscall w of
           (Some e, w') \<Rightarrow> (Inr [], w')
         | (None, w') \<Rightarrow> (Inr (filter (glob_match pattern) (sort (remdups (map fst (fs w'))))), w')))"

section \<open>Timestamps\<close>

text \<open>
  The wall-clock reading of a \<open>time.Time\<close>, as \<open>Format\<close> sees it. \<open>appendInt\<close>
  prints a number in decimal, padded with zeros to a width (and no shorter than the number).
\<close>

record Time =
  Year :: int
  Month :: nat
  Day :: nat
  Hour :: nat
  Minute :: nat
  Second :: nat
  Nanosecond :: nat

definition appendInt :: "int \<Rightarrow> nat \<Rightarrow> string" where
  "appendInt x width =
     (let digits = utoa (nat \<bar>x\<bar>);
          padded = replicate (width - length digits) (CHR ''0'') @ digits
      in if x < 0 then CHR ''-'' # padded else padded)"

text \<open>
  \<open>t.Format("20060102_150405.000000")\<close>: year, month, day, an underscore, hour,
  minute, second, a dot and the first six digits of the nine-digit nanosecond.
\<close>

definition Format :: "Time \<Rightarrow> string" where
  "Format t =
     appendInt (Year t) 4 @ appendInt (int (Month t)) 2 @ appendInt (int (Day t)) 2 @ ''_'' @
     appendInt (int (Hour t)) 2 @ appendInt (int (Minute t)) 2 @ appendInt (int (Second t)) 2 @
     ''.'' @ take 6 (appendInt (int (Nanosecond t)) 9)"

section \<open>BackupManager\<close>

record BackupManager =
  backupDir :: string
  maxVersions :: int

definition NewBackupManager :: "string \<Rightarrow> int \<Rightarrow> BackupManager" where
  "NewBackupManager dir versions = \<lparr>backupDir = dir, maxVersions = versions\<rparr>"

text \<open>
  The loop \<open>for i := range toRemove\<close> of \<open>cleanOldVersions\<close> over the sorted
  matches: the list argument is \<open>matches[i:]\<close>. Indexing past the end of the slice
  panics; the panic is the value \<open>Panic\<close> below, which no caller can wrap.
\<close>

datatype 'a outcome = Returned 'a | Panic string

fun remove_oldest :: "string list \<Rightarrow> nat \<Rightarrow> world \<Rightarrow> (go_error option) outcome \<times> world" where
  "remove_oldest ms 0 w = (Returned None, w)"
| "remove_oldest [] (Suc n) w = (Panic ''index out of range'', w)"
| "remove_oldest (m # ms) (Suc n) w =
     (case os_Remove m w of
        (Some err, w1) \<Rightarrow> (Returned (Some err), w1)
      | (None, w1) \<Rightarrow>
          remove_oldest ms n (logger (LogInfo (CHR 0x09 # ''Removed old version: '' @ Base m)) w1))"

definition cleanOldVersions ::
  "BackupManager \<Rightarrow> string \<Rightarrow> string \<Rightarrow> string \<Rightarrow> world \<Rightarrow> (go_error option) outcome \<times> world" where
  "cleanOldVersions bm dir baseName ext w =
     (let pattern = Join dir (baseName @ ''_*'' @ ext) in
      case Glob pattern w of
        (Inl err, w1) \<Rightarrow> (Returned (Some err), w1)
      | (Inr matches, w1) \<Rightarrow>
          if int (length matches) \<le> maxVersions bm then (Returned None, w1)
          else remove_oldest (sort matches) (nat (int (length matches) - maxVersions bm)) w1)"

text \<open>
  \<open>CreateBackup\<close>. The argument \<open>now\<close> is what \<open>time.Now()\<close> returns during the call.
\<close>

definition CreateBackup ::
  "BackupManager \<Rightarrow> string \<Rightarrow> string \<Rightarrow> Time \<Rightarrow> world \<Rightarrow> (go_error option) outcome \<times> world" where
  "CreateBackup bm sourcePath sourceDir now w =
     (case os_Stat sourcePath w of
        (st, w1) \<Rightarrow>
          if os_IsNotExist st
          then (Returned (Some (ErrorsNew (''source file does not exist: '' @ sourcePath))), w1)
          else
            (case Rel sourceDir sourcePath of
               Inl err \<Rightarrow>
                 (Returned (Some (Wrapped ''error while calculating relative path'' err)), w1)
             | Inr relPath \<Rightarrow>
                 (let timestamp = Format now;
                      ext = Ext relPath;
                      nameWithoutExt = TrimSuffix (Base relPath) ext;
                      backupName = nameWithoutExt @ ''_'' @ timestamp @ ext;
                      fileVersionDir = Join (backupDir bm) (relPath @ ''_versions'');
                      backupPath = Join fileVersionDir backupName
                  in case os_MkdirAll fileVersionDir 493 w1 of
                       (Some err, w2) \<Rightarrow>
                         (Returned (Some (Wrapped ''error while creating directory version'' err)), w2)
                     | (None, w2) \<Rightarrow>
                         (case SafeCopyFile sourcePath backupPath 3 w2 of
                            (Some err, w3) \<Rightarrow>
                              (Returned (Some (Wrapped ''error copying file'' err)), w3)
                          | (None, w3) \<Rightarrow>
                              (case cleanOldVersions bm fileVersionDir nameWithoutExt ext
                                      (logger (LogBackupCreated (Base sourcePath) backupName) w3) of
                                 (Returned (Some err), w4) \<Rightarrow>
                                   (Returned (Some (Wrapped ''error cleaning old versions'' err)), w4)
                               | (Returned None, w4) \<Rightarrow> (Returned None, w4)
                               | (Panic msg, w4) \<Rightarrow> (Panic msg, w4))))))"

section \<open>FileWatcher (watcher/watcher.go)\<close>

text \<open>
  Instants are readings of the monotonic clock in nanoseconds, and \<open>MinInterval\<close> is
  a count of nanoseconds; the differences \<open>time.Since\<close> computes stay far inside the
  \<open>int64\<close> range and are taken as integers.
\<close>

record Config =
  SourceDir :: string
  BackupDir :: string
  MaxVersions :: int
  MinInterval :: int
  IgnorePatterns :: "string list"

definition NewConfig :: "string \<Rightarrow> string \<Rightarrow> int \<Rightarrow> int \<Rightarrow> Config" where
  "NewConfig source backup versions interval =
     \<lparr>SourceDir = source, BackupDir = backup, MaxVersions = versions, MinInterval = interval,
      IgnorePatterns = [''*.tmp'', ''*.swp'', ''.git'', ''.DS_Store'']\<rparr>"

record BackupJob =
  FilePath :: string
  EventType :: string
  Timestamp :: int

text \<open>
  The fields of \<open>FileWatcher\<close> the event handler reads and writes. \<open>watched\<close> are
  the directories registered with the fsnotify watcher; \<open>backupQueue\<close> is the buffered
  channel with its capacity \<open>queueCap\<close>.
\<close>

record FileWatcher =
  config :: Config
  backupManager :: BackupManager
  watched :: "string list"
  lastBackup :: "string \<rightharpoonup> int"
  backupQueue :: "BackupJob list"
  queueCap :: nat
  numWorkers :: nat

definition NewFileWatcher :: "Config \<Rightarrow> FileWatcher" where
  "NewFileWatcher cfg =
     \<lparr>config = cfg,
      backupManager = NewBackupManager (BackupDir cfg) (MaxVersions cfg),
      watched = [],
      lastBackup = Map.empty,
      backupQueue = [],
      queueCap = 100,
      numWorkers = 3\<rparr>"

text \<open>An fsnotify event: a path and a bit set of operations (\<open>fsnotify.Op\<close>, a \<open>uint32\<close>).\<close>

record Event =
  Name :: string
  Op :: "32 word"

definition Create :: "32 word" where "Create = 1"
definition Write :: "32 word" where "Write = 2"
definition Remove :: "32 word" where "Remove = 4"
definition Rename :: "32 word" where "Rename = 8"
definition Chmod :: "32 word" where "Chmod = 16"

definition isDir :: "string \<Rightarrow> world \<Rightarrow> bool \<times> world" where
  "isDir path w =
     (case os_Lstat path w of
        (Inl err, w1) \<Rightarrow> (False, w1)
      | (Inr info, w1) \<Rightarrow> (IsDir info, w1))"

text \<open>\<open>fw.watcher.Add\<close>; the handler drops its error.\<close>

definition watcher_Add :: "string \<Rightarrow> FileWatcher \<Rightarrow> world \<Rightarrow> FileWatcher \<times> world" where
  "watcher_Add name fw w =
     (case syscall w of
        (Some e, w1) \<Rightarrow> (fw, w1)
      | (None, w1) \<Rightarrow> (fw\<lparr>watched := watched fw @ [name]\<rparr>, w1))"

text \<open>The loop of \<open>shouldIgnore\<close> over the patterns; the error of \<open>Match\<close> is dropped.\<close>

fun ignore_loop :: "string list \<Rightarrow> string \<Rightarrow> string \<Rightarrow> bool" where
  "ignore_loop [] base path = False"
| "ignore_loop (pattern # rest) base path =
     (if fst (Match pattern base) then True
      else if Contains path pattern then True
      else ignore_loop rest base path)"

definition shouldIgnore :: "FileWatcher \<Rightarrow> string \<Rightarrow> bool" where
  "shouldIgnore fw path = ignore_loop (IgnorePatterns (config fw)) (Base path) path"

text \<open>
  \<open>enqueueBackup\<close> reads the clock three times: in \<open>time.Since\<close>, for the job's
  timestamp, and for the entry it records. The three readings are the argument
  \<open>(now1, now2, now3)\<close>. The send on the channel does not block: it succeeds when the
  buffer has room.
\<close>

definition enqueueBackup ::
  "FileWatcher \<Rightarrow> string \<Rightarrow> string \<Rightarrow> int \<times> int \<times> int \<Rightarrow> world \<Rightarrow> FileWatcher \<times> world" where
  "enqueueBackup fw path eventType clock w =
     (case clock of
        (now1, now2, now3) \<Rightarrow>
          if (case lastBackup fw path of
                Some lastTime \<Rightarrow> now1 - lastTime < MinInterval (config fw)
              | None \<Rightarrow> False)
          then (fw, logger (LogBackupSkipped (Base path) ''too soon since last backup'') w)
          else
            (let job = \<lparr>FilePath = path, EventType = eventType, Timestamp = now2\<rparr> in
             if length (backupQueue fw) < queueCap fw
             then (fw\<lparr>backupQueue := backupQueue fw @ [job],
                      lastBackup := (lastBackup fw)(path \<mapsto> now3)\<rparr>,
                   logger (LogInfo (''Add to backup queue: '' @ Base path @ '' ['' @ eventType @ '']'')) w)
             else (fw, logger (LogWarning (''Queue full, skipping backup for: '' @ Base path)) w)))"

text \<open>
  \<open>handleEvent\<close>. The create and the write case of the switch fall through to the
  code after it, which is \<open>after_switch\<close>.
\<close>

definition after_switch ::
  "FileWatcher \<Rightarrow> Event \<Rightarrow> string \<Rightarrow> int \<times> int \<times> int \<Rightarrow> world \<Rightarrow> FileWatcher \<times> world" where
  "after_switch fw event eventType clock w =
     (case isDir (Name event) w of
        (d, w1) \<Rightarrow>
          if d then (fw, w1)
          else if shouldIgnore fw (Name event) then (fw, w1)
          else enqueueBackup fw (Name event) eventType clock w1)"

definition handleEvent ::
  "FileWatcher \<Rightarrow> Event \<Rightarrow> int \<times> int \<times> int \<Rightarrow> world \<Rightarrow> FileWatcher \<times> world" where
  "handleEvent fw event clock w =
     (if Op event AND Create = Create then
        (case isDir (Name event) w of
           (d, w1) \<Rightarrow>
             (case (if d
                    then (case watcher_Add (Name event) fw w1 of
                            (fw1, w2) \<Rightarrow>
                              (fw1, logger (LogInfo (''New catalog: '' @ Base (Name event))) w2))
                    else (fw, w1)) of
                (fw1, w3) \<Rightarrow>
                  after_switch fw1 event ''CREATe'' clock
                    (logger (LogFileCreated (Base (Name event))) w3)))
      else if Op event AND Write = Write then
        after_switch fw event ''WRITE'' clock (logger (LogFileModified (Base (Name event))) w)
      else if Op event AND Remove = Remove then
        (fw, logger (LogFileDeleted (Base (Name event))) w)
      else if Op event AND Rename = Rename then
        (fw, logger (LogFileRenamed (Base (Name event))) w)
      else if Op event AND Chmod = Chmod then (fw, w)
      else (fw, w))"

section \<open>Definitions used to state the properties\<close>

text \<open>A world with an empty file system, no faults and no history.\<close>

definition world0 :: world where
  "world0 = \<lparr>fs = [], faults = (\<lambda>n. None), syscalls = 0, slept = [], logged = []\<rparr>"

text \<open>
  The retry schedule in the words of the specification: attempt \<open>k\<close> (counted from 0)
  starts in the world the previous attempt left, after a sleep of \<open>d * 2 ^ (k - 1)\<close>;
  the first attempt starts at once.
\<close>

fun state_before_attempt ::
  "duration \<Rightarrow> (world \<Rightarrow> go_error option \<times> world) \<Rightarrow> world \<Rightarrow> nat \<Rightarrow> world" where
  "state_before_attempt d fn w 0 = w"
| "state_before_attempt d fn w (Suc k) =
     time_Sleep (d * 2 ^ k) (snd (fn (state_before_attempt d fn w k)))"

text \<open>
  What the last attempt's outcome makes of the whole call: nil on success, the
  error itself when it is not retryable, the aggregate error around it otherwise.
\<close>

definition retry_result :: "int \<Rightarrow> go_error option \<times> world \<Rightarrow> go_error option \<times> world" where
  "retry_result maxRetries out =
     (case out of
        (None, w') \<Rightarrow> (None, w')
      | (Some e, w') \<Rightarrow>
          if IsRetryable e then (Some (exceed_max_retries maxRetries (Some e)), w')
          else (Some e, w'))"

text \<open>The debounce condition of the specification, at the time \<open>now\<close> of the check.\<close>

definition debounce_admits :: "FileWatcher \<Rightarrow> string \<Rightarrow> int \<Rightarrow> bool" where
  "debounce_admits fw path now =
     (lastBackup fw path = None \<or>
      (\<exists>lastTime. lastBackup fw path = Some lastTime \<and> MinInterval (config fw) \<le> now - lastTime))"

text \<open>A watcher with the default configuration, and one whose queue is full.\<close>

definition default_watcher :: FileWatcher where
  "default_watcher = NewFileWatcher (NewConfig ''/src'' ''/bk'' 3 5000000000)"

definition full_watcher :: FileWatcher where
  "full_watcher =
     default_watcher
       \<lparr>backupQueue :=
          replicate 100 \<lparr>FilePath = ''/src/b.txt'', EventType = ''WRITE'', Timestamp = 0\<rparr>\<rparr>"

text \<open>The line the handler logs when it sees a create or a write event.\<close>

definition observation :: "Event \<Rightarrow> log_entry" where
  "observation event =
     (if Op event AND Create = Create then LogFileCreated (Base (Name event))
      else LogFileModified (Base (Name event)))"

text \<open>
  Wall-clock readings as \<open>time.Now()\<close> delivers them (a four-digit year), their
  chronological order at microsecond resolution, the name \<open>CreateBackup\<close> gives the
  version of \<open>relPath\<close> written at \<open>now\<close>, and \<open>fixed w n\<close>, the \<open>w\<close> low decimal
  digits of \<open>n\<close>.
\<close>

definition wall_clock :: "Time \<Rightarrow> bool" where
  "wall_clock t =
     (0 \<le> Year t \<and> Year t \<le> 9999 \<and> 1 \<le> Month t \<and> Month t \<le> 12 \<and> 1 \<le> Day t \<and> Day t \<le> 31 \<and>
      Hour t < 24 \<and> Minute t < 60 \<and> Second t < 60 \<and> Nanosecond t < 1000000000)"

definition before :: "Time \<Rightarrow> Time \<Rightarrow> bool" where
  "before a b =
     (Year a < Year b \<or> Year a = Year b \<and>
      (Month a < Month b \<or> Month a = Month b \<and>
       (Day a < Day b \<or> Day a = Day b \<and>
        (Hour a < Hour b \<or> Hour a = Hour b \<and>
         (Minute a < Minute b \<or> Minute a = Minute b \<and>
          (Second a < Second b \<or> Second a = Second b \<and>
           Nanosecond a div 1000 < Nanosecond b div 1000))))))"

definition backup_name :: "string \<Rightarrow> Time \<Rightarrow> string" where
  "backup_name relPath now =
     TrimSuffix (Base relPath) (Ext relPath) @ ''_'' @ Format now @ Ext relPath"

fun fixed :: "nat \<Rightarrow> nat \<Rightarrow> string" where
  "fixed 0 n = []"
| "fixed (Suc w) n = fixed w (n div 10) @ [digit_char (n mod 10)]"

definition stamp2 :: Time where
  "stamp2 = \<lparr>Year = 2024, Month = 1, Day = 2, Hour = 3, Minute = 4, Second = 6, Nanosecond = 0\<rparr>"

text \<open>Worlds and a time for the examples: a disk that fails two writes, and a
  destination whose mode cannot be changed.\<close>

definition stamp1 :: Time where
  "stamp1 = \<lparr>Year = 2024, Month = 1, Day = 2, Hour = 3, Minute = 4, Second = 5, Nanosecond = 6789\<rparr>"

definition flaky_world :: world where
  "flaky_world =
     \<lparr>fs = [(''/src/a.txt'', File ''hello'' 420)],
      faults = (\<lambda>n. if n = 4 \<or> n = 9 then Some ENOSPC else None),
      syscalls = 0, slept = [], logged = []\<rparr>"

definition chmod_world :: world where
  "chmod_world =
     \<lparr>fs = [(''/src'', Dir 493), (''/src/a.txt'', File ''hello'' 420)],
      faults = (\<lambda>n. if n = 6 then Some EPERM else None),
      syscalls = 0, slept = [], logged = []\<rparr>"

text \<open>
  Worlds for the examples of \<open>CreateBackup\<close>: each holds a source file and one
  earlier version of it. In \<open>evict_world\<close> the eleventh system call (the removal of
  the old version) is refused; in \<open>bracket_world\<close> the source is named \<open>a[1].txt\<close>.
  The worlds \<open>evict_copied\<close> and \<open>bracket_copied\<close> are what the copy of the new
  version leaves.
\<close>

definition evict_world :: world where
  "evict_world =
     \<lparr>fs = [(''/src'', Dir 493), (''/src/a.txt'', File ''hello'' 420), (''/bk'', Dir 493),
            (''/bk/a.txt_versions'', Dir 493),
            (''/bk/a.txt_versions/a_20240101_000000.000000.txt'', File ''hi'' 420)],
      faults = (\<lambda>n. if n = 10 then Some EACCES else None),
      syscalls = 0, slept = [], logged = []\<rparr>"

definition bracket_world :: world where
  "bracket_world =
     \<lparr>fs = [(''/src'', Dir 493), (''/src/a[1].txt'', File ''hello'' 420), (''/bk'', Dir 493),
            (''/bk/a[1].txt_versions'', Dir 493),
            (''/bk/a[1].txt_versions/a[1]_20240101_000000.000000.txt'', File ''hi'' 420)],
      faults = (\<lambda>n. None), syscalls = 0, slept = [], logged = []\<rparr>"

definition evict_copied :: world where
  "evict_copied =
     evict_world\<lparr>syscalls := 9,
       fs := fs evict_world @
             [(''/bk/a.txt_versions/a_20240102_030405.000006.txt'', File ''hello'' 420)]\<rparr>"

definition bracket_copied :: world where
  "bracket_copied =
     bracket_world\<lparr>syscalls := 9,
       fs := fs bracket_world @
             [(''/bk/a[1].txt_versions/a[1]_20240102_030405.000006.txt'', File ''hello'' 420)]\<rparr>"

text \<open>Events for the examples: a removal, and a write to a temporary file.\<close>

definition remove_event :: Event where
  "remove_event = \<lparr>Name = ''/src/a.txt'', Op = Remove\<rparr>"

definition tmp_write_event :: Event where
  "tmp_write_event = \<lparr>Name = ''/src/notes.tmp'', Op = Write\<rparr>"

text \<open>
  The version files of a logical file, as \<open>cleanOldVersions\<close> looks for them: the
  existing paths that match its glob pattern, in sorted order.
\<close>

definition version_files :: "string \<Rightarrow> string \<Rightarrow> string \<Rightarrow> world \<Rightarrow> string list" where
  "version_files dir baseName ext w =
     filter (glob_match (Join dir (baseName @ ''_*'' @ ext))) (sort (remdups (map fst (fs w))))"

definition is_file :: "world \<Rightarrow> string \<Rightarrow> bool" where
  "is_file w p = (\<exists>c m. map_of (fs w) p = Some (File c m))"

section \<open>Properties of RetryWithBackoff\<close>

lemma state_before_attempt_shift:
  "state_before_attempt d fn w (Suc k) =
     state_before_attempt (d * 2) fn (time_Sleep d (snd (fn w))) k"
  by (induction k) (simp_all add: mult.assoc)

lemma slept_before_attempt:
  assumes "\<And>v. slept (snd (fn v)) = slept v"
  shows "slept (state_before_attempt d fn w k) = slept w @ map (\<lambda>j. d * 2 ^ j) [0..<k]"
  by (induction k) (simp_all add: time_Sleep_def assms)

lemma retry_loop_schedule:
  "i < maxRetries \<Longrightarrow>
   \<exists>n. 1 \<le> n \<and> i + int n \<le> maxRetries \<and>
     (\<forall>k<n - 1. \<exists>e. fst (fn (state_before_attempt d fn w k)) = Some e \<and> IsRetryable e) \<and>
     retry_loop maxRetries i d lastErr fn w =
       retry_result maxRetries (fn (state_before_attempt d fn w (n - 1))) \<and>
     (\<forall>e. fst (fn (state_before_attempt d fn w (n - 1))) = Some e \<and> IsRetryable e
        \<longrightarrow> i + int n = maxRetries)"
proof (induction "nat (maxRetries - i)" arbitrary: i d lastErr w)
  case 0
  then show ?case by simp
next
  case (Suc m)
  obtain r w' where out: "fn w = (r, w')" by (cases "fn w")
  show ?case
  proof (cases r)
    case None
    with out Suc.prems show ?thesis
      by (intro exI[of _ 1]) (simp add: retry_loop.simps retry_result_def)
  next
    case (Some err)
    show ?thesis
    proof (cases "IsRetryable err")
      case False
      with out Some Suc.prems show ?thesis
        by (intro exI[of _ 1]) (simp add: retry_loop.simps retry_result_def)
    next
      case True
      show ?thesis
      proof (cases "i < maxRetries - 1")
        case False
        have "retry_loop maxRetries i d lastErr fn w =
                retry_loop maxRetries (i + 1) d (Some err) fn w'"
          using out Some True False Suc.prems by (subst retry_loop.simps) simp
        also have "\<dots> = (Some (exceed_max_retries maxRetries (Some err)), w')"
          using False by (subst retry_loop.simps) simp
        finally show ?thesis
          using out Some True False Suc.prems
          by (intro exI[of _ 1]) (simp add: retry_result_def)
      next
        case more: True
        have m: "m = nat (maxRetries - (i + 1))" using Suc.hyps(2) by simp
        from Suc.hyps(1)[OF m, of "d * 2" "time_Sleep d w'" "Some err"] more
        obtain n where n: "1 \<le> n" "i + 1 + int n \<le> maxRetries"
          "\<forall>k<n - 1. \<exists>e. fst (fn (state_before_attempt (d * 2) fn (time_Sleep d w') k)) = Some e
              \<and> IsRetryable e"
          "retry_loop maxRetries (i + 1) (d * 2) (Some err) fn (time_Sleep d w') =
             retry_result maxRetries
               (fn (state_before_attempt (d * 2) fn (time_Sleep d w') (n - 1)))"
          "\<forall>e. fst (fn (state_before_attempt (d * 2) fn (time_Sleep d w') (n - 1))) = Some e
              \<and> IsRetryable e \<longrightarrow> i + 1 + int n = maxRetries"
          by auto
        have sh: "\<And>k. state_before_attempt d fn w (Suc k) =
                      state_before_attempt (d * 2) fn (time_Sleep d w') k"
          using state_before_attempt_shift[of d fn w] out by simp
        have loop: "retry_loop maxRetries i d lastErr fn w =
                      retry_loop maxRetries (i + 1) (d * 2) (Some err) fn (time_Sleep d w')"
          using out Some True more Suc.prems by (subst retry_loop.simps) simp
        have earlier: "\<forall>k<Suc n - 1. \<exists>e. fst (fn (state_before_attempt d fn w k)) = Some e
                          \<and> IsRetryable e"
        proof (intro allI impI)
          fix k assume k: "k < Suc n - 1"
          show "\<exists>e. fst (fn (state_before_attempt d fn w k)) = Some e \<and> IsRetryable e"
          proof (cases k)
            case 0
            with out Some True show ?thesis by simp
          next
            case (Suc j)
            with k have "j < n - 1" by simp
            with n(3) Suc sh show ?thesis by simp
          qed
        qed
        from n(1) obtain p where p: "n = Suc p" by (cases n) auto
        show ?thesis
          apply (rule exI[of _ "Suc n"])
          using n earlier loop sh p by (auto simp del: state_before_attempt.simps)
      qed
    qed
  qed
qed

text \<open>
  Claim C3. With a budget of at least one attempt, \<open>RetryWithBackoff\<close> makes \<open>n\<close>
  attempts for some \<open>1 \<le> n \<le> maxRetries\<close>: attempt \<open>k\<close> starts in
  \<open>state_before_attempt d fn w k\<close>, that is after sleeps of \<open>d\<close>, \<open>2 * d\<close>,
  \<open>4 * d\<close>, ... between consecutive attempts (the doubling is that of \<open>int64\<close>). All
  attempts before the last fail with a retryable error. The result is that of the last
  attempt: nil when it succeeds, its error when that is not retryable, and otherwise
  (only after \<open>maxRetries\<close> attempts) the aggregate error that wraps it. When \<open>fn\<close>
  itself does not sleep, the sleeps of the call are exactly \<open>d * 2 ^ j\<close> for
  \<open>j < n - 1\<close>.
\<close>

theorem RetryWithBackoff_schedule:
  assumes "1 \<le> maxRetries"
  shows "\<exists>n. 1 \<le> n \<and> int n \<le> maxRetries \<and>
     (\<forall>k<n - 1. \<exists>e. fst (fn (state_before_attempt d fn w k)) = Some e \<and> IsRetryable e) \<and>
     RetryWithBackoff maxRetries d fn w =
       retry_result maxRetries (fn (state_before_attempt d fn w (n - 1))) \<and>
     (\<forall>e. fst (fn (state_before_attempt d fn w (n - 1))) = Some e \<and> IsRetryable e
        \<longrightarrow> int n = maxRetries) \<and>
     ((\<forall>v. slept (snd (fn v)) = slept v) \<longrightarrow>
        slept (snd (RetryWithBackoff maxRetries d fn w)) =
          slept w @ map (\<lambda>j. d * 2 ^ j) [0..<n - 1])"
proof -
  from assms have "0 < maxRetries" by simp
  from retry_loop_schedule[OF this, of fn d w None]
  obtain n where n: "1 \<le> n" "int n \<le> maxRetries"
    "\<forall>k<n - 1. \<exists>e. fst (fn (state_before_attempt d fn w k)) = Some e \<and> IsRetryable e"
    "RetryWithBackoff maxRetries d fn w =
       retry_result maxRetries (fn (state_before_attempt d fn w (n - 1)))"
    "\<forall>e. fst (fn (state_before_attempt d fn w (n - 1))) = Some e \<and> IsRetryable e
        \<longrightarrow> int n = maxRetries"
    by (auto simp: RetryWithBackoff_def)
  have "slept (snd (RetryWithBackoff maxRetries d fn w)) =
          slept w @ map (\<lambda>j. d * 2 ^ j) [0..<n - 1]"
    if quiet: "\<forall>v. slept (snd (fn v)) = slept v"
  proof -
    have "slept (snd (retry_result maxRetries out)) = slept (snd out)" for out
      by (cases out) (auto simp: retry_result_def split: option.splits)
    then have "slept (snd (RetryWithBackoff maxRetries d fn w)) =
                 slept (state_before_attempt d fn w (n - 1))"
      using n(4) quiet by simp
    also have "\<dots> = slept w @ map (\<lambda>j. d * 2 ^ j) [0..<n - 1]"
      using quiet by (intro slept_before_attempt) simp
    finally show ?thesis .
  qed
  with n show ?thesis by blast
qed

text \<open>
  The doubling is that of \<open>int64\<close>. As long as the product stays below \<open>2 ^ 63\<close>
  the delay is the exact multiple; for the base delay of \<open>SafeCopyFile\<close>, 100 ms,
  that covers the first 37 sleeps.
\<close>

lemma backoff_delay_exact:
  fixes d :: duration
  assumes "uint d * 2 ^ j < 2 ^ 63"
  shows "sint (d * 2 ^ j) = uint d * 2 ^ j"
proof -
  have "d * 2 ^ j = word_of_int (uint d * 2 ^ j)"
    by simp
  moreover have "sint (word_of_int (uint d * 2 ^ j) :: 64 word) = uint d * 2 ^ j"
  proof -
    have "(0::int) \<le> uint d * 2 ^ j" by simp
    then have "- (2 ^ 63) \<le> uint d * 2 ^ j" by (rule order_trans[rotated]) simp
    with assms have keep: "signed_take_bit 63 (uint d * 2 ^ j) = uint d * 2 ^ j"
      by (intro signed_take_bit_int_eq_self)
    have "sint (word_of_int (uint d * 2 ^ j) :: 64 word) =
            signed_take_bit (LENGTH(64) - 1) (uint d * 2 ^ j)"
      by (rule sint_sbintrunc')
    also have "\<dots> = signed_take_bit 63 (uint d * 2 ^ j)" by simp
    finally show ?thesis using keep by (simp only:)
  qed
  ultimately show ?thesis by simp
qed

lemma base_delay_exact:
  assumes "j \<le> 36"
  shows "sint (100 * Millisecond * 2 ^ j :: duration) = 100000000 * 2 ^ j"
proof -
  have u: "uint (100 * Millisecond :: duration) = 100000000"
    by (simp add: Millisecond_def)
  have "(2::int) ^ j \<le> 2 ^ 36" using assms by (intro power_increasing) simp_all
  then have "(100000000::int) * 2 ^ j \<le> 100000000 * 2 ^ 36" by simp
  also have "\<dots> < 2 ^ 63" by simp
  finally have "uint (100 * Millisecond :: duration) * 2 ^ j < 2 ^ 63" by (simp add: u)
  from backoff_delay_exact[OF this] u show ?thesis by simp
qed

text \<open>
  Claim C10. With \<open>maxRetries \<le> 0\<close> the loop body never runs: whatever \<open>fn\<close> is, the
  world is returned as it was (so \<open>fn\<close> was not invoked) and the result is the non-nil
  error whose text starts with "exceed max retries".
\<close>

theorem RetryWithBackoff_no_budget:
  assumes "maxRetries \<le> 0"
  shows "RetryWithBackoff maxRetries initialDelay fn w =
           (Some (ErrorsNew (''exceed max retries ('' @ itoa maxRetries @ ''): %!w(<nil>)'')), w)"
  using assms by (simp add: RetryWithBackoff_def retry_loop.simps exceed_max_retries_def)

theorem RetryWithBackoff_no_budget_witness:
  "(0::int) \<le> 0 \<and>
   RetryWithBackoff 0 (100 * Millisecond) (\<lambda>w. (None, w)) world0 =
     (Some (ErrorsNew ''exceed max retries (0): %!w(<nil>)''), world0)"
  using RetryWithBackoff_no_budget [of 0 "100 * Millisecond" "\<lambda>w. (None, w)" world0]
  by (simp add: itoa_def utoa.simps digit_char_def)

section \<open>Properties of SafeCopyFile\<close>

lemma IsRetryable_BackupError [simp]: "IsRetryable (BackupError p opn c r) = r"
  by (simp add: IsRetryable_def)

lemma copy_loop_failure:
  "copy_loop src dst pending w = (Some err, w') \<Longrightarrow>
     (Operation err = ''read'' \<or> Operation err = ''write'') \<and> IsRetryable err"
proof (induction src dst pending w rule: copy_loop.induct)
  case (1 src dst pending w)
  obtain chunk rerr w1 where rd: "os_Read src pending w = (chunk, rerr, w1)"
    by (cases "os_Read src pending w") auto
  obtain werr w2 where wr:
    "(if chunk \<noteq> [] then os_Write dst chunk w1 else (None, w1)) = (werr, w2)"
    by (cases "if chunk \<noteq> [] then os_Write dst chunk w1 else (None, w1)") auto
  show ?case
  proof (cases werr)
    case (Some e)
    with "1.prems" rd wr show ?thesis
      by (subst (asm) copy_loop.simps) auto
  next
    case None
    show ?thesis
    proof (cases rerr)
      case (Some e)
      with "1.prems" rd wr None show ?thesis
        by (subst (asm) copy_loop.simps) (auto split: if_splits)
    next
      case noerr: None
      with "1.prems" rd wr None
      have "copy_loop src dst (drop (length chunk) pending) w2 = (Some err, w')"
        by (subst (asm) copy_loop.simps) auto
      with "1.IH"[OF rd[symmetric] refl wr[symmetric] None noerr] show ?thesis
        by simp
    qed
  qed
qed

text \<open>
  Claim C4. One attempt of \<open>SafeCopyFile\<close> classifies its failures through the
  \<open>Retryable\<close> field, which is what \<open>IsRetryable\<close> reads:
  \<^item> a failed \<open>stat\<close> of the source is retryable exactly on a permission error, so it
    is not when the source does not exist;
  \<^item> a source that is a directory is not retryable;
  \<^item> every failure of the streaming loop is a read or a write failure and is retryable;
  \<^item> once the bytes are copied the attempt succeeds, whatever \<open>Chmod\<close> returns.
\<close>

theorem copy_attempt_classification:
  "(os_Stat src w = (Inl (PathError ''stat'' src e), w1) \<longrightarrow>
      (\<exists>err. copy_attempt src dst w = (Some err, w1) \<and> Operation err = ''stat_source'' \<and>
             (IsRetryable err \<longleftrightarrow> e = EACCES \<or> e = EPERM))) \<and>
   (os_Stat src w = (Inr info, w1) \<and> IsDir info \<longrightarrow>
      (\<exists>err. copy_attempt src dst w = (Some err, w1) \<and> Operation err = ''check_type'' \<and>
             \<not> IsRetryable err)) \<and>
   (copy_loop src dst pending w = (Some err, w') \<longrightarrow>
      (Operation err = ''read'' \<or> Operation err = ''write'') \<and> IsRetryable err) \<and>
   (os_Stat src w = (Inr info, w1) \<and> \<not> IsDir info \<and> os_Open src w1 = (None, w2) \<and>
    os_Create dst w2 = (None, w3) \<and> copy_loop src dst (srcFile_bytes src w3) w3 = (None, w4) \<longrightarrow>
      copy_attempt src dst w = (None, snd (os_Chmod dst (Mode info) w4)))"
proof (intro conjI impI)
  assume "os_Stat src w = (Inl (PathError ''stat'' src e), w1)"
  then show "\<exists>err. copy_attempt src dst w = (Some err, w1) \<and> Operation err = ''stat_source'' \<and>
             (IsRetryable err \<longleftrightarrow> e = EACCES \<or> e = EPERM)"
    by (simp add: copy_attempt_def)
next
  assume "os_Stat src w = (Inr info, w1) \<and> IsDir info"
  then show "\<exists>err. copy_attempt src dst w = (Some err, w1) \<and> Operation err = ''check_type'' \<and>
             \<not> IsRetryable err"
    by (simp add: copy_attempt_def)
next
  assume "copy_loop src dst pending w = (Some err, w')"
  then show "Operation err = ''read'' \<or> Operation err = ''write''" "IsRetryable err"
    using copy_loop_failure by blast+
next
  assume "os_Stat src w = (Inr info, w1) \<and> \<not> IsDir info \<and> os_Open src w1 = (None, w2) \<and>
    os_Create dst w2 = (None, w3) \<and> copy_loop src dst (srcFile_bytes src w3) w3 = (None, w4)"
  then show "copy_attempt src dst w = (None, snd (os_Chmod dst (Mode info) w4))"
    by (cases "os_Chmod dst (Mode info) w4") (auto simp: copy_attempt_def split: option.splits)
qed

section \<open>Properties of the event handler\<close>

lemma isDir_eq:
  "isDir p w =
     (faults w (syscalls w) = None \<and> (\<exists>m. map_of (fs w) p = Some (Dir m)),
      w\<lparr>syscalls := Suc (syscalls w)\<rparr>)"
  by (auto simp: isDir_def os_Lstat_def syscall_def IsDir_def
      split: option.splits node.splits)

lemma watcher_Add_eq:
  "watcher_Add name fw w =
     (if faults w (syscalls w) = None then fw\<lparr>watched := watched fw @ [name]\<rparr> else fw,
      w\<lparr>syscalls := Suc (syscalls w)\<rparr>)"
  by (auto simp: watcher_Add_def syscall_def split: option.splits)

lemma shouldIgnore_watched [simp]:
  "shouldIgnore (fw\<lparr>watched := ds\<rparr>) p = shouldIgnore fw p"
  by (simp add: shouldIgnore_def)

lemma after_switch_eq:
  "after_switch fw event ty clock w =
     (if (faults w (syscalls w) = None \<and> (\<exists>m. map_of (fs w) (Name event) = Some (Dir m)))
         \<or> shouldIgnore fw (Name event)
      then (fw, w\<lparr>syscalls := Suc (syscalls w)\<rparr>)
      else enqueueBackup fw (Name event) ty clock (w\<lparr>syscalls := Suc (syscalls w)\<rparr>))"
  by (auto simp: after_switch_def isDir_eq)

lemma enqueueBackup_logs:
  "length (logged (snd (enqueueBackup fw path ty clock w))) = Suc (length (logged w))"
  by (auto simp: enqueueBackup_def logger_def Let_def split: prod.splits option.splits)

lemma ignore_loop_iff:
  "ignore_loop ps base path \<longleftrightarrow>
     (\<exists>pattern \<in> set ps. fst (Match pattern base) \<or> Contains path pattern)"
  by (induction ps) auto

lemma Contains_iff: "Contains s sub \<longleftrightarrow> (\<exists>u v. s = u @ sub @ v)"
proof (induction s)
  case Nil
  then show ?case by auto
next
  case (Cons c cs)
  show ?case
  proof
    assume "Contains (c # cs) sub"
    then consider "take (length sub) (c # cs) = sub" | "Contains cs sub" by auto
    then show "\<exists>u v. c # cs = u @ sub @ v"
    proof cases
      case 1
      then have "c # cs = [] @ sub @ drop (length sub) (c # cs)"
        by (metis append_Nil append_take_drop_id)
      then show ?thesis by blast
    next
      case 2
      with Cons obtain u v where "cs = u @ sub @ v" by auto
      then have "c # cs = (c # u) @ sub @ v" by simp
      then show ?thesis by blast
    qed
  next
    assume "\<exists>u v. c # cs = u @ sub @ v"
    then obtain u v where uv: "c # cs = u @ sub @ v" by auto
    show "Contains (c # cs) sub"
    proof (cases u)
      case Nil
      with uv have "take (length sub) (c # cs) = sub" by simp
      then show ?thesis by simp
    next
      case (Cons a u')
      with uv have "cs = u' @ sub @ v" by simp
      with Cons.IH show ?thesis by auto
    qed
  qed
qed

text \<open>
  Claim C2, as it is stated, fails when the queue is full: the path has no entry, so
  the debounce check admits the event, but the send does not go through and no time
  is recorded.
\<close>

theorem enqueueBackup_queue_full_counterexample:
  "debounce_admits full_watcher ''/src/a.txt'' 7 \<and>
   lastBackup (fst (enqueueBackup full_watcher ''/src/a.txt'' ''WRITE'' (7, 7, 7) world0))
     ''/src/a.txt'' \<noteq> Some 7"
  by (simp add: debounce_admits_def full_watcher_def default_watcher_def NewFileWatcher_def
      NewConfig_def enqueueBackup_def)

text \<open>
  Claim C2, amended. The debounce check admits the event if and only if the path has no
  entry or the time since its entry is at least \<open>MinInterval\<close>. An admitted event is
  offered to the queue: when the queue has room the job is appended and the entry of the
  path becomes the clock reading taken after the send; when the queue is full the
  watcher is left as it was. A suppressed event leaves the watcher as it was.
\<close>

theorem enqueueBackup_debounce:
  "fst (enqueueBackup fw path eventType (now1, now2, now3) w) =
     (if debounce_admits fw path now1 \<and> length (backupQueue fw) < queueCap fw
      then fw\<lparr>backupQueue :=
                backupQueue fw @ [\<lparr>FilePath = path, EventType = eventType, Timestamp = now2\<rparr>],
              lastBackup := (lastBackup fw)(path \<mapsto> now3)\<rparr>
      else fw)"
  by (auto simp: enqueueBackup_def debounce_admits_def Let_def split: option.splits)

text \<open>
  Claim C7. An event with neither the create nor the write bit (a remove, a rename, a
  permission change, or any mix of them) leaves the watcher exactly as it was: no
  job, no entry in the debounce map, no new watch. The switch tests the create bit
  first and the write bit second, so a mask that also carries one of them is handled
  as a create or a write. Such an event changes neither the debounce map nor the queue
  when its path matches an ignore pattern or is a directory (and \<open>Lstat\<close> works).
\<close>

theorem handleEvent_no_backup:
  "(Op event AND Create \<noteq> Create \<and> Op event AND Write \<noteq> Write
      \<longrightarrow> fst (handleEvent fw event clock w) = fw) \<and>
   (shouldIgnore fw (Name event) \<or>
    ((\<exists>m. map_of (fs w) (Name event) = Some (Dir m)) \<and> (\<forall>n. faults w n = None))
      \<longrightarrow> lastBackup (fst (handleEvent fw event clock w)) = lastBackup fw \<and>
          backupQueue (fst (handleEvent fw event clock w)) = backupQueue fw)"
proof (rule conjI; rule impI)
  assume "Op event AND Create \<noteq> Create \<and> Op event AND Write \<noteq> Write"
  then show "fst (handleEvent fw event clock w) = fw"
    by (simp add: handleEvent_def)
next
  assume h: "shouldIgnore fw (Name event) \<or>
    ((\<exists>m. map_of (fs w) (Name event) = Some (Dir m)) \<and> (\<forall>n. faults w n = None))"
  show "lastBackup (fst (handleEvent fw event clock w)) = lastBackup fw \<and>
          backupQueue (fst (handleEvent fw event clock w)) = backupQueue fw"
  proof (cases "Op event AND Create = Create")
    case True
    with h show ?thesis
      by (auto simp: handleEvent_def isDir_eq watcher_Add_eq after_switch_eq logger_def)
  next
    case False
    show ?thesis
    proof (cases "Op event AND Write = Write")
      case True
      with False h show ?thesis
        by (auto simp: handleEvent_def after_switch_eq logger_def)
    next
      case noWrite: False
      with False show ?thesis by (simp add: handleEvent_def)
    qed
  qed
qed

lemma handleEvent_nondir:
  assumes "Op event AND Create = Create \<or> Op event AND Write = Write"
    and "\<forall>m. map_of (fs w) (Name event) \<noteq> Some (Dir m)"
  shows "\<exists>W ty. logged W = logged w @ [observation event] \<and>
           handleEvent fw event clock w =
             (if shouldIgnore fw (Name event) then (fw, W)
              else enqueueBackup fw (Name event) ty clock W)"
proof (cases "Op event AND Create = Create")
  case True
  with assms(2) show ?thesis
    by (auto simp: handleEvent_def isDir_eq after_switch_eq logger_def observation_def
        intro!: exI)
next
  case False
  with assms show ?thesis
    by (auto simp: handleEvent_def isDir_eq after_switch_eq logger_def observation_def
        intro!: exI)
qed

text \<open>
  Claim C8. For a create or write event on a path that is not a directory, the handler
  drops the event silently (it returns the watcher unchanged, having logged nothing
  but the line that reports the event) if and only if some ignore pattern matches:
  as a glob against the base name of the path, or as a substring of the whole path.
  The code applies both tests to every pattern.
\<close>

theorem handleEvent_ignore:
  assumes "Op event AND Create = Create \<or> Op event AND Write = Write"
    and "\<forall>m. map_of (fs w) (Name event) \<noteq> Some (Dir m)"
  shows "(fst (handleEvent fw event clock w) = fw \<and>
          logged (snd (handleEvent fw event clock w)) = logged w @ [observation event])
         \<longleftrightarrow> (\<exists>pattern \<in> set (IgnorePatterns (config fw)).
                fst (Match pattern (Base (Name event))) \<or>
                (\<exists>u v. Name event = u @ pattern @ v))"
proof -
  have ign: "shouldIgnore fw (Name event) \<longleftrightarrow>
        (\<exists>pattern \<in> set (IgnorePatterns (config fw)).
                fst (Match pattern (Base (Name event))) \<or>
                (\<exists>u v. Name event = u @ pattern @ v))"
    by (simp add: shouldIgnore_def ignore_loop_iff Contains_iff)
  from handleEvent_nondir[OF assms, of fw clock] obtain W ty where
    W: "logged W = logged w @ [observation event]" and
    run: "handleEvent fw event clock w =
             (if shouldIgnore fw (Name event) then (fw, W)
              else enqueueBackup fw (Name event) ty clock W)"
    by blast
  show ?thesis
  proof (cases "shouldIgnore fw (Name event)")
    case True
    with run W ign show ?thesis by simp
  next
    case False
    have "length (logged (snd (enqueueBackup fw (Name event) ty clock W))) =
            Suc (length (logged W))"
      by (rule enqueueBackup_logs)
    with W have "logged (snd (enqueueBackup fw (Name event) ty clock W)) \<noteq>
                   logged w @ [observation event]"
      by auto
    with False run ign show ?thesis by simp
  qed
qed

lemma Match_tmp: "fst (Match ''*.tmp'' ''notes.tmp'')"
  by (simp add: Match_def parse_terms.simps)

lemma ignore_tmp: "shouldIgnore default_watcher ''/src/notes.tmp''"
  by (simp add: shouldIgnore_def default_watcher_def NewFileWatcher_def NewConfig_def Base_def
      Match_tmp)

theorem handleEvent_no_backup_witness:
  "(Op remove_event AND Create \<noteq> Create \<and> Op remove_event AND Write \<noteq> Write) \<and>
   fst (handleEvent default_watcher remove_event (7, 7, 7) world0) = default_watcher \<and>
   shouldIgnore default_watcher (Name tmp_write_event) \<and>
   backupQueue (fst (handleEvent default_watcher tmp_write_event (7, 7, 7) world0)) = []"
proof -
  have a: "Op remove_event AND Create \<noteq> Create \<and> Op remove_event AND Write \<noteq> Write"
    by (simp add: remove_event_def Create_def Write_def Remove_def)
  have b: "shouldIgnore default_watcher (Name tmp_write_event)"
    by (simp add: tmp_write_event_def ignore_tmp)
  have q: "backupQueue default_watcher = []"
    by (simp add: default_watcher_def NewFileWatcher_def)
  from a b q handleEvent_no_backup[of remove_event default_watcher "(7, 7, 7)" world0]
    handleEvent_no_backup[of tmp_write_event default_watcher "(7, 7, 7)" world0]
  show ?thesis by simp
qed

theorem handleEvent_ignore_witness:
  "(Op tmp_write_event AND Create = Create \<or> Op tmp_write_event AND Write = Write) \<and>
   (\<forall>m. map_of (fs world0) (Name tmp_write_event) \<noteq> Some (Dir m)) \<and>
   fst (handleEvent default_watcher tmp_write_event (7, 7, 7) world0) = default_watcher \<and>
   logged (snd (handleEvent default_watcher tmp_write_event (7, 7, 7) world0)) =
     [LogFileModified ''notes.tmp'']"
proof -
  have a: "Op tmp_write_event AND Create = Create \<or> Op tmp_write_event AND Write = Write"
    by (simp add: tmp_write_event_def Write_def)
  have b: "\<forall>m. map_of (fs world0) (Name tmp_write_event) \<noteq> Some (Dir m)"
    by (simp add: world0_def)
  have c: "\<exists>pattern \<in> set (IgnorePatterns (config default_watcher)).
             fst (Match pattern (Base (Name tmp_write_event))) \<or>
             (\<exists>u v. Name tmp_write_event = u @ pattern @ v)"
    by (simp add: default_watcher_def NewFileWatcher_def NewConfig_def tmp_write_event_def
        Base_def Match_tmp)
  have o: "observation tmp_write_event = LogFileModified ''notes.tmp''"
    by (simp add: observation_def tmp_write_event_def Write_def Create_def Base_def)
  from handleEvent_ignore[OF a b, of default_watcher "(7, 7, 7)"] c o a b
  show ?thesis by (simp add: world0_def)
qed

section \<open>Properties of CreateBackup\<close>

text \<open>
  Claim C5. When the \<open>stat\<close> of the source reports that it does not exist,
  \<open>CreateBackup\<close> returns the error "source file does not exist" at once. The world
  it leaves differs from the one it found in the count of system calls only (the one
  \<open>stat\<close>): no directory and no file was created, nothing was copied or retried (no
  sleep, no further call), nothing was logged.
\<close>

theorem CreateBackup_source_missing:
  assumes "os_IsNotExist (fst (os_Stat sourcePath w))"
  shows "CreateBackup bm sourcePath sourceDir now w =
           (Returned (Some (ErrorsNew (''source file does not exist: '' @ sourcePath))),
            w\<lparr>syscalls := Suc (syscalls w)\<rparr>)"
  using assms
  by (auto simp: CreateBackup_def os_Stat_def syscall_def split: prod.splits option.splits)

lemma os_Write_is_file:
  "os_Write name bytes w = (r, w') \<Longrightarrow> is_file w p \<Longrightarrow> is_file w' p"
  by (auto simp: os_Write_def syscall_def is_file_def update_conv'
      split: option.splits node.splits)

lemma os_Read_fs: "os_Read name pending w = (chunk, rerr, w') \<Longrightarrow> fs w' = fs w"
  by (auto simp: os_Read_def syscall_def split: option.splits if_splits)

lemma copy_loop_is_file:
  "copy_loop src dst pending w = (r, w') \<Longrightarrow> is_file w p \<Longrightarrow> is_file w' p"
proof (induction src dst pending w rule: copy_loop.induct)
  case (1 src dst pending w)
  obtain chunk rerr w1 where rd: "os_Read src pending w = (chunk, rerr, w1)"
    by (cases "os_Read src pending w") auto
  obtain werr w2 where wr:
    "(if chunk \<noteq> [] then os_Write dst chunk w1 else (None, w1)) = (werr, w2)"
    by (cases "if chunk \<noteq> [] then os_Write dst chunk w1 else (None, w1)") auto
  have f1: "is_file w1 p" using os_Read_fs[OF rd] "1.prems"(2) by (simp add: is_file_def)
  have f2: "is_file w2 p"
    using wr f1 os_Write_is_file by (auto split: if_splits)
  show ?case
  proof (cases werr)
    case (Some e)
    with "1.prems" rd wr f2 show ?thesis
      by (subst (asm) copy_loop.simps) auto
  next
    case None
    show ?thesis
    proof (cases rerr)
      case (Some e)
      with "1.prems" rd wr None f2 show ?thesis
        by (subst (asm) copy_loop.simps) (auto split: if_splits)
    next
      case noerr: None
      with "1.prems" rd wr None
      have "copy_loop src dst (drop (length chunk) pending) w2 = (r, w')"
        by (subst (asm) copy_loop.simps) auto
      with "1.IH"[OF rd[symmetric] refl wr[symmetric] None noerr] f2 show ?thesis
        by simp
    qed
  qed
qed

lemma os_Create_is_file: "os_Create dst w = (None, w') \<Longrightarrow> is_file w' dst"
  by (auto simp: os_Create_def syscall_def is_file_def update_conv'
      split: option.splits node.splits)

lemma os_Chmod_is_file: "os_Chmod name m w = (r, w') \<Longrightarrow> is_file w p \<Longrightarrow> is_file w' p"
  by (auto simp: os_Chmod_def syscall_def is_file_def update_conv'
      split: option.splits node.splits)

lemma copy_attempt_is_file:
  assumes "copy_attempt src dst w = (None, w')"
  shows "is_file w' dst"
proof -
  from assms obtain info w1 where st: "os_Stat src w = (Inr info, w1)" "\<not> IsDir info"
    by (auto simp: copy_attempt_def split: prod.splits sum.splits if_splits)
  from assms st obtain w2 where op: "os_Open src w1 = (None, w2)"
    by (auto simp: copy_attempt_def split: prod.splits option.splits)
  from assms st op obtain w3 where cr: "os_Create dst w2 = (None, w3)"
    by (auto simp: copy_attempt_def split: prod.splits option.splits)
  from assms st op cr obtain w4 where
    lp: "copy_loop src dst (srcFile_bytes src w3) w3 = (None, w4)"
    by (auto simp: copy_attempt_def split: prod.splits option.splits)
  from assms st op cr lp have ch: "w' = snd (os_Chmod dst (Mode info) w4)"
    by (auto simp: copy_attempt_def split: prod.splits option.splits)
  have "is_file w4 dst" using copy_loop_is_file[OF lp] os_Create_is_file[OF cr] by simp
  then show ?thesis
    using ch os_Chmod_is_file[of dst "Mode info" w4]
    by (cases "os_Chmod dst (Mode info) w4") auto
qed

lemma retry_loop_success:
  "retry_loop m i d lastErr fn w = (None, w') \<Longrightarrow> \<exists>v. fn v = (None, w')"
proof (induction m i d lastErr fn w rule: retry_loop.induct)
  case (1 maxRetries i delay lastErr fn w)
  show ?case
  proof (cases "i < maxRetries")
    case False
    with "1.prems" show ?thesis by (subst (asm) retry_loop.simps) simp
  next
    case True
    obtain r w1 where out: "fn w = (r, w1)" by (cases "fn w")
    show ?thesis
    proof (cases r)
      case None
      with "1.prems" True out have "w' = w1" by (subst (asm) retry_loop.simps) simp
      with out None show ?thesis by auto
    next
      case (Some err)
      show ?thesis
      proof (cases "IsRetryable err")
        case False
        with "1.prems" True out Some show ?thesis by (subst (asm) retry_loop.simps) simp
      next
        case retry: True
        show ?thesis
        proof (cases "i < maxRetries - 1")
          case more: True
          with "1.prems" True out Some retry
          have "retry_loop maxRetries (i + 1) (delay * 2) (Some err) fn (time_Sleep delay w1)
                  = (None, w')"
            by (subst (asm) retry_loop.simps) simp
          from "1.IH"(1)[OF True out[symmetric] Some _ more this] retry
          show ?thesis by simp
        next
          case last: False
          with "1.prems" True out Some retry
          have "retry_loop maxRetries (i + 1) delay (Some err) fn w1 = (None, w')"
            by (subst (asm) retry_loop.simps) simp
          from "1.IH"(2)[OF True out[symmetric] Some _ last this] retry
          show ?thesis by simp
        qed
      qed
    qed
  qed
qed

lemma SafeCopyFile_is_file:
  "SafeCopyFile src dst m w = (None, w') \<Longrightarrow> is_file w' dst"
  using retry_loop_success copy_attempt_is_file
  by (fastforce simp: SafeCopyFile_def RetryWithBackoff_def)

lemma os_Remove_other:
  "os_Remove m w = (r, w1) \<Longrightarrow> p \<noteq> m \<Longrightarrow> map_of (fs w1) p = map_of (fs w) p"
  by (auto simp: os_Remove_def syscall_def delete_conv' split: option.splits if_splits)

lemma remove_oldest_other:
  "remove_oldest ms n w = (r, w') \<Longrightarrow> p \<notin> set (take n ms) \<Longrightarrow>
     map_of (fs w') p = map_of (fs w) p"
proof (induction ms n w rule: remove_oldest.induct)
  case (1 ms w)
  then show ?case by simp
next
  case (2 n w)
  then show ?case by simp
next
  case (3 m ms n w)
  obtain e w1 where rm: "os_Remove m w = (e, w1)" by (cases "os_Remove m w")
  from "3.prems"(2) have ne: "p \<noteq> m" and rest: "p \<notin> set (take n ms)" by auto
  show ?case
  proof (cases e)
    case (Some err)
    with "3.prems"(1) rm have "w' = w1" by simp
    with os_Remove_other[OF rm ne] show ?thesis by simp
  next
    case None
    with "3.prems"(1) rm
    have "remove_oldest ms n (logger (LogInfo (CHR 0x09 # ''Removed old version: '' @ Base m)) w1)
            = (r, w')" by simp
    from "3.IH"[OF rm[symmetric] None this rest] os_Remove_other[OF rm ne]
    show ?thesis by (simp add: logger_def)
  qed
qed

lemma Glob_cases:
  "Glob pattern w = (Inr ms, w1) \<Longrightarrow>
     fs w1 = fs w \<and>
     (ms = [] \<or> ms = filter (glob_match pattern) (sort (remdups (map fst (fs w)))))"
  by (auto simp: Glob_def syscall_def split: if_splits option.splits)

lemma Glob_fs: "Glob pattern w = (r, w1) \<Longrightarrow> fs w1 = fs w"
  by (auto simp: Glob_def syscall_def split: if_splits option.splits)

lemma sorted_distinct_take_less_last:
  assumes "sorted xs" "distinct xs" "k < length xs" "x \<in> set (take k xs)"
  shows "x < last xs"
proof -
  from assms(4) obtain i where i: "i < k" "i < length xs" "x = xs ! i"
    by (auto simp: in_set_conv_nth)
  have "xs \<noteq> []" using assms(3) by auto
  then have l: "last xs = xs ! (length xs - 1)" by (simp add: last_conv_nth)
  have "i < length xs - 1" using i assms(3) by simp
  then have "xs ! i \<le> xs ! (length xs - 1)" using assms(1,3) by (simp add: sorted_nth_mono)
  moreover have "xs ! i \<noteq> xs ! (length xs - 1)"
    using assms(2,3) i \<open>i < length xs - 1\<close> by (simp add: nth_eq_iff_index_eq)
  ultimately show ?thesis using i l by simp
qed

lemma cleanOldVersions_keeps_newest:
  assumes "1 \<le> maxVersions bm"
    and "cleanOldVersions bm dir baseName ext w = (r, w')"
    and "\<forall>q \<in> set (version_files dir baseName ext w). q \<le> p"
  shows "map_of (fs w') p = map_of (fs w) p"
proof -
  define pattern where "pattern = Join dir (baseName @ ''_*'' @ ext)"
  obtain g w1 where g: "Glob pattern w = (g, w1)" by (cases "Glob pattern w")
  show ?thesis
  proof (cases g)
    case (Inl e)
    with assms(2) g Glob_fs[OF g] show ?thesis
      by (simp add: cleanOldVersions_def pattern_def)
  next
    case (Inr ms)
    from Glob_cases[OF g[unfolded Inr]]
    have fs1: "fs w1 = fs w"
      and ms: "ms = [] \<or> ms = version_files dir baseName ext w"
      by (auto simp: version_files_def pattern_def)
    show ?thesis
    proof (cases "int (length ms) \<le> maxVersions bm")
      case True
      with assms(2) g Inr fs1 show ?thesis
        by (simp add: cleanOldVersions_def pattern_def)
    next
      case False
      define k where "k = nat (int (length ms) - maxVersions bm)"
      from False assms(2) g Inr have run: "remove_oldest (sort ms) k w1 = (r, w')"
        by (simp add: cleanOldVersions_def pattern_def k_def)
      from False assms(1) have ne: "ms \<noteq> []" by auto
      with ms have msv: "ms = version_files dir baseName ext w" by simp
      have d: "distinct ms" unfolding msv version_files_def by simp
      have kl: "k < length (sort ms)" using assms(1) False by (simp add: k_def)
      have "p \<notin> set (take k (sort ms))"
      proof
        assume "p \<in> set (take k (sort ms))"
        from sorted_distinct_take_less_last[OF _ _ kl this] d
        have "p < last (sort ms)" by simp
        moreover have "last (sort ms) \<in> set ms"
        proof -
          have "sort ms \<noteq> []" using ne by (metis length_sort length_0_conv)
          then have "last (sort ms) \<in> set (sort ms)" by (rule last_in_set)
          then show ?thesis by simp
        qed
        ultimately show False using assms(3) msv by auto
      qed
      from remove_oldest_other[OF run this] fs1 show ?thesis by simp
    qed
  qed
qed

lemma os_Remove_success:
  "os_Remove m w = (None, w1) \<Longrightarrow> map_of (fs w1) = (map_of (fs w))(m := None)"
  by (auto simp: os_Remove_def syscall_def delete_conv' split: option.splits if_splits)

lemma remove_oldest_success:
  "remove_oldest ms n w = (Returned None, w') \<Longrightarrow>
     map_of (fs w') p = (if p \<in> set (take n ms) then None else map_of (fs w) p)"
proof (induction ms n w rule: remove_oldest.induct)
  case (1 ms w)
  then show ?case by simp
next
  case (2 n w)
  then show ?case by simp
next
  case (3 m ms n w)
  obtain e w1 where rm: "os_Remove m w = (e, w1)" by (cases "os_Remove m w")
  show ?case
  proof (cases e)
    case (Some err)
    with "3.prems" rm show ?thesis by simp
  next
    case None
    with "3.prems" rm
    have run: "remove_oldest ms n (logger (LogInfo (CHR 0x09 # ''Removed old version: '' @ Base m)) w1)
            = (Returned None, w')" by simp
    from "3.IH"[OF rm[symmetric] None run] os_Remove_success[OF rm[unfolded None]]
    show ?thesis by (auto simp: logger_def)
  qed
qed

lemma filter_not_in_take:
  assumes "distinct xs"
  shows "filter (\<lambda>x. x \<notin> set (take k xs)) xs = drop k xs"
proof -
  have d: "set (take k xs) \<inter> set (drop k xs) = {}"
    using assms by (metis append_take_drop_id distinct_append)
  have "filter (\<lambda>x. x \<notin> set (take k xs)) xs =
          filter (\<lambda>x. x \<notin> set (take k xs)) (take k xs) @
          filter (\<lambda>x. x \<notin> set (take k xs)) (drop k xs)"
    by (metis append_take_drop_id filter_append)
  moreover have "filter (\<lambda>x. x \<notin> set (take k xs)) (take k xs) = []"
    by (simp add: filter_empty_conv)
  moreover have "filter (\<lambda>x. x \<notin> set (take k xs)) (drop k xs) = drop k xs"
    using d by (auto simp: filter_id_conv)
  ultimately show ?thesis by simp
qed

text \<open>
  What a successful \<open>cleanOldVersions\<close> leaves, when the directory can be read: of
  the version files its pattern matches, exactly the \<open>maxVersions\<close> greatest (all of
  them when there are fewer), the smaller ones having been removed in ascending order.
\<close>

lemma cleanOldVersions_retains_newest:
  assumes "faults w (syscalls w) = None"
    and "cleanOldVersions bm dir baseName ext w = (Returned None, w')"
    and "0 \<le> maxVersions bm"
  shows "version_files dir baseName ext w' =
           drop (length (version_files dir baseName ext w) - nat (maxVersions bm))
             (version_files dir baseName ext w)"
proof -
  define pattern where "pattern = Join dir (baseName @ ''_*'' @ ext)"
  define vs where "vs = version_files dir baseName ext w"
  define keys :: "world \<Rightarrow> string list" where "keys = (\<lambda>v. sort (remdups (map fst (fs v))))"
  have vs_keys: "vs = filter (glob_match pattern) (keys w)"
    by (simp add: vs_def version_files_def pattern_def keys_def)
  obtain g w1 where g: "Glob pattern w = (g, w1)" by (cases "Glob pattern w")
  from assms(2) g obtain ms where ms: "g = Inr ms"
    by (cases g) (auto simp: cleanOldVersions_def pattern_def)
  from g ms assms(1) have fs1: "fs w1 = fs w" and msv: "ms = vs"
    by (auto simp: Glob_def syscall_def vs_keys keys_def split: if_splits)
  show ?thesis
  proof (cases "int (length vs) \<le> maxVersions bm")
    case True
    with assms(2) g ms msv have "w' = w1"
      by (simp add: cleanOldVersions_def pattern_def)
    with fs1 True show ?thesis
      by (simp add: version_files_def vs_def)
  next
    case False
    define k where "k = nat (int (length vs) - maxVersions bm)"
    have sorted_vs: "sorted vs" and distinct_vs: "distinct vs"
      by (simp_all add: vs_keys keys_def sorted_wrt_filter)
    then have sv: "sort vs = vs" by (simp add: sorted_sort_id)
    from False assms(2) g ms msv sv have run: "remove_oldest vs k w1 = (Returned None, w')"
      by (simp add: cleanOldVersions_def pattern_def k_def)
    have look: "map_of (fs w') p = (if p \<in> set (take k vs) then None else map_of (fs w) p)" for p
      using remove_oldest_success[OF run] fs1 by simp
    have tk: "set (take k vs) \<subseteq> set (keys w)"
      using set_take_subset[of k vs] by (auto simp: vs_keys)
    have "set (keys w') = dom (map_of (fs w'))"
      by (simp add: keys_def dom_map_of_conv_image_fst)
    also have "\<dots> = dom (map_of (fs w)) - set (take k vs)"
      using look by (auto simp: dom_def split: if_splits)
    also have "\<dots> = set (filter (\<lambda>p. p \<notin> set (take k vs)) (keys w))"
      by (auto simp: keys_def dom_map_of_conv_image_fst)
    finally have sets: "set (keys w') = set (filter (\<lambda>p. p \<notin> set (take k vs)) (keys w))" .
    have s1: "sorted (keys w')" and d1: "distinct (keys w')"
      by (simp_all add: keys_def)
    have s2: "sorted (filter (\<lambda>p. p \<notin> set (take k vs)) (keys w))"
      and d2: "distinct (filter (\<lambda>p. p \<notin> set (take k vs)) (keys w))"
      by (simp_all add: keys_def sorted_wrt_filter)
    from sorted_distinct_set_unique[OF s1 d1 s2 d2 sets]
    have "keys w' = filter (\<lambda>p. p \<notin> set (take k vs)) (keys w)" .
    then have "version_files dir baseName ext w' =
                 filter (\<lambda>p. p \<notin> set (take k vs)) vs"
      by (simp add: version_files_def vs_keys keys_def pattern_def conj_commute)
    also have "\<dots> = drop k vs" by (rule filter_not_in_take[OF distinct_vs])
    also have "k = length vs - nat (maxVersions bm)"
      using False assms(3) by (simp add: k_def nat_diff_distrib')
    finally show ?thesis by (simp add: vs_def)
  qed
qed

text \<open>
  Claim C9. Take a run of \<open>CreateBackup\<close> (with \<open>maxVersions \<ge> 1\<close>) in which the
  source exists, the version directory is made, the copy to \<open>backupPath\<close> succeeds
  and \<open>cleanOldVersions\<close> then fails with \<open>err\<close>, and in which no version file has a
  name above the new one. Then \<open>CreateBackup\<close> returns the error "error cleaning old
  versions" that wraps \<open>err\<close>, and the new version file is on disk exactly as the copy
  left it.
\<close>

theorem CreateBackup_eviction_failure:
  assumes "1 \<le> maxVersions bm"
    and "os_Stat sourcePath w = (st, w1)" and "\<not> os_IsNotExist st"
    and "Rel sourceDir sourcePath = Inr relPath"
    and "ext = Ext relPath" and "baseName = TrimSuffix (Base relPath) ext"
    and "backupName = baseName @ ''_'' @ Format now @ ext"
    and "dir = Join (backupDir bm) (relPath @ ''_versions'')"
    and "backupPath = Join dir backupName"
    and "os_MkdirAll dir 493 w1 = (None, w2)"
    and "SafeCopyFile sourcePath backupPath 3 w2 = (None, w3)"
    and "\<forall>q \<in> set (version_files dir baseName ext w3). q \<le> backupPath"
    and "cleanOldVersions bm dir baseName ext
           (logger (LogBackupCreated (Base sourcePath) backupName) w3) = (Returned (Some err), w4)"
  shows "CreateBackup bm sourcePath sourceDir now w =
           (Returned (Some (Wrapped ''error cleaning old versions'' err)), w4) \<and>
         (\<exists>c m. map_of (fs w4) backupPath = Some (File c m)) \<and>
         map_of (fs w4) backupPath = map_of (fs w3) backupPath"
proof -
  let ?w3 = "logger (LogBackupCreated (Base sourcePath) backupName) w3"
  have run: "CreateBackup bm sourcePath sourceDir now w =
           (Returned (Some (Wrapped ''error cleaning old versions'' err)), w4)"
    using assms by (simp add: CreateBackup_def Let_def)
  have "\<forall>q \<in> set (version_files dir baseName ext ?w3). q \<le> backupPath"
    using assms(12) by (simp add: version_files_def logger_def)
  from cleanOldVersions_keeps_newest[OF assms(1) assms(13) this]
  have keep: "map_of (fs w4) backupPath = map_of (fs w3) backupPath"
    by (simp add: logger_def)
  from SafeCopyFile_is_file[OF assms(11)] have "is_file w3 backupPath" .
  with keep run show ?thesis by (simp add: is_file_def)
qed

section \<open>Properties of the version names\<close>

lemma length_fixed [simp]: "length (fixed w n) = w"
  by (induction w arbitrary: n) auto

lemma fixed_zero: "fixed w 0 = replicate w (CHR ''0'')"
  by (induction w) (auto simp: digit_char_def replicate_append_same)

lemma length_utoa: "n < 10 ^ Suc w \<Longrightarrow> length (utoa n) \<le> Suc w"
proof (induction w arbitrary: n)
  case 0
  then show ?case by (subst utoa.simps) simp
next
  case (Suc w)
  show ?case
  proof (cases "n < 10")
    case True
    then show ?thesis by (subst utoa.simps) simp
  next
    case False
    from Suc.prems have "n div 10 < 10 ^ Suc w" by simp
    from Suc.IH[OF this] False show ?thesis by (subst utoa.simps) simp
  qed
qed

lemma pad_utoa:
  "n < 10 ^ Suc w \<Longrightarrow> replicate (Suc w - length (utoa n)) (CHR ''0'') @ utoa n = fixed (Suc w) n"
proof (induction w arbitrary: n)
  case 0
  then show ?case by (subst (1 2) utoa.simps) simp
next
  case (Suc w)
  show ?case
  proof (cases "n < 10")
    case True
    then have "utoa n = [digit_char n]" by (subst utoa.simps) simp
    with True show ?thesis by (simp add: fixed_zero)
  next
    case False
    have u: "utoa n = utoa (n div 10) @ [digit_char (n mod 10)]"
      using False by (subst utoa.simps) simp
    from Suc.prems have d: "n div 10 < 10 ^ Suc w" by simp
    from Suc.IH[OF d] length_utoa[OF d] show ?thesis
      by (simp add: u Suc_diff_le)
  qed
qed

lemma appendInt_fixed:
  "n < 10 ^ Suc w \<Longrightarrow> appendInt (int n) (Suc w) = fixed (Suc w) n"
  using pad_utoa[of n w] by (simp add: appendInt_def Let_def)

lemma take_fixed: "take w (fixed (w + k) n) = fixed w (n div 10 ^ k)"
proof (induction k arbitrary: n)
  case 0
  then show ?case by simp
next
  case (Suc k)
  have "take w (fixed (w + Suc k) n) = take w (fixed (w + k) (n div 10))"
    by simp
  also have "\<dots> = fixed w (n div 10 div 10 ^ k)" by (rule Suc.IH)
  also have "n div 10 div 10 ^ k = n div 10 ^ Suc k" by (simp add: div_mult2_eq)
  finally show ?case .
qed

lemma append_less_iff:
  "length xs = length ys \<Longrightarrow> (xs @ u < ys @ v) \<longleftrightarrow> (xs < ys \<or> xs = ys \<and> u < v)"
  by (induction xs ys rule: list_induct2) auto

lemma digit_char_less: "a < 10 \<Longrightarrow> b < 10 \<Longrightarrow> digit_char a < digit_char b \<longleftrightarrow> a < b"
proof -
  assume "a < 10" "b < 10"
  then have "a \<in> {0,1,2,3,4,5,6,7,8,9}" "b \<in> {0,1,2,3,4,5,6,7,8,9}" by auto
  then show ?thesis by (auto simp: digit_char_def)
qed

lemma digit_char_inj: "a < 10 \<Longrightarrow> b < 10 \<Longrightarrow> digit_char a = digit_char b \<longleftrightarrow> a = b"
proof -
  assume "a < 10" "b < 10"
  then have "a \<in> {0,1,2,3,4,5,6,7,8,9}" "b \<in> {0,1,2,3,4,5,6,7,8,9}" by auto
  then show ?thesis by (auto simp: digit_char_def)
qed

lemma divmod_less:
  fixes a b :: nat
  shows "(a div 10 < b div 10 \<or> a div 10 = b div 10 \<and> a mod 10 < b mod 10) \<longleftrightarrow> a < b"
proof -
  define qa ra qb rb where "qa = a div 10" and "ra = a mod 10" and "qb = b div 10" and "rb = b mod 10"
  have a: "a = 10 * qa + ra" and b: "b = 10 * qb + rb" and r: "ra < 10" "rb < 10"
    by (simp_all add: qa_def ra_def qb_def rb_def)
  have "(qa < qb \<or> qa = qb \<and> ra < rb) \<longleftrightarrow> 10 * qa + ra < 10 * qb + rb"
    using r by arith
  then show ?thesis
    unfolding a b by (simp add: qa_def ra_def qb_def rb_def)
qed

lemma fixed_less_eq:
  "a < 10 ^ w \<Longrightarrow> b < 10 ^ w \<Longrightarrow>
     (fixed w a < fixed w b \<longleftrightarrow> a < b) \<and> (fixed w a = fixed w b \<longleftrightarrow> a = b)"
proof (induction w arbitrary: a b)
  case 0
  then show ?case by simp
next
  case (Suc w)
  from Suc.prems have d: "a div 10 < 10 ^ w" "b div 10 < 10 ^ w" by auto
  note ih = Suc.IH[OF d]
  have m: "a mod 10 < 10" "b mod 10 < 10" by simp_all
  have "fixed (Suc w) a < fixed (Suc w) b \<longleftrightarrow>
          fixed w (a div 10) < fixed w (b div 10) \<or>
          fixed w (a div 10) = fixed w (b div 10) \<and> digit_char (a mod 10) < digit_char (b mod 10)"
    by (simp add: append_less_iff)
  also have "\<dots> \<longleftrightarrow> a div 10 < b div 10 \<or> a div 10 = b div 10 \<and> a mod 10 < b mod 10"
    by (simp only: ih digit_char_less[OF m])
  also have "\<dots> \<longleftrightarrow> a < b" by (rule divmod_less)
  finally have less: "fixed (Suc w) a < fixed (Suc w) b \<longleftrightarrow> a < b" .
  have "fixed (Suc w) a = fixed (Suc w) b \<longleftrightarrow>
          fixed w (a div 10) = fixed w (b div 10) \<and> digit_char (a mod 10) = digit_char (b mod 10)"
    by simp
  also have "\<dots> \<longleftrightarrow> a div 10 = b div 10 \<and> a mod 10 = b mod 10"
    by (simp only: ih digit_char_inj[OF m])
  also have "\<dots> \<longleftrightarrow> a = b"
  proof
    assume "a div 10 = b div 10 \<and> a mod 10 = b mod 10"
    then show "a = b" by (metis div_mult_mod_eq)
  qed auto
  finally show ?case using less by simp
qed

lemma fixed_less: "a < 10 ^ w \<Longrightarrow> b < 10 ^ w \<Longrightarrow> fixed w a < fixed w b \<longleftrightarrow> a < b"
  using fixed_less_eq by blast

lemma fixed_eq: "a < 10 ^ w \<Longrightarrow> b < 10 ^ w \<Longrightarrow> fixed w a = fixed w b \<longleftrightarrow> a = b"
  using fixed_less_eq by blast

lemma appendInt_width:
  assumes "0 < w" "n < 10 ^ w"
  shows "appendInt (int n) w = fixed w n"
proof -
  from assms(1) obtain v where "w = Suc v" by (cases w) auto
  with assms(2) appendInt_fixed[of n v] show ?thesis by simp
qed

declare fixed.simps [simp del]

lemma appendInt_4: "n < 10000 \<Longrightarrow> appendInt (int n) 4 = fixed 4 n"
  by (rule appendInt_width) simp_all

lemma appendInt_2: "n < 100 \<Longrightarrow> appendInt (int n) 2 = fixed 2 n"
  by (rule appendInt_width) simp_all

lemma appendInt_9: "n < 1000000000 \<Longrightarrow> appendInt (int n) 9 = fixed 9 n"
  by (rule appendInt_width) simp_all

lemma take_6_fixed_9: "take 6 (fixed 9 n) = fixed 6 (n div 1000)"
  using take_fixed[of 6 3 n] by simp

lemma Format_fixed:
  assumes "wall_clock t"
  shows "Format t =
     fixed 4 (nat (Year t)) @ fixed 2 (Month t) @ fixed 2 (Day t) @ ''_'' @
     fixed 2 (Hour t) @ fixed 2 (Minute t) @ fixed 2 (Second t) @ ''.'' @
     fixed 6 (Nanosecond t div 1000)"
proof -
  from assms have "nat (Year t) < 10000" "int (nat (Year t)) = Year t"
    by (auto simp: wall_clock_def)
  with appendInt_4[of "nat (Year t)"] have y: "appendInt (Year t) 4 = fixed 4 (nat (Year t))"
    by simp
  from assms have "Nanosecond t < 1000000000" by (simp add: wall_clock_def)
  then have n9: "appendInt (int (Nanosecond t)) 9 = fixed 9 (Nanosecond t)"
    by (rule appendInt_9)
  from assms have "Month t < 100" "Day t < 100" "Hour t < 100" "Minute t < 100" "Second t < 100"
    by (auto simp: wall_clock_def)
  then have f: "appendInt (int (Month t)) 2 = fixed 2 (Month t)"
    "appendInt (int (Day t)) 2 = fixed 2 (Day t)"
    "appendInt (int (Hour t)) 2 = fixed 2 (Hour t)"
    "appendInt (int (Minute t)) 2 = fixed 2 (Minute t)"
    "appendInt (int (Second t)) 2 = fixed 2 (Second t)"
    by (simp_all only: appendInt_2)
  show ?thesis
    unfolding Format_def y n9 f take_6_fixed_9 ..
qed

lemma Format_less:
  assumes "wall_clock a" "wall_clock b"
  shows "Format a < Format b \<longleftrightarrow> before a b"
proof -
  have y: "nat (Year a) < 10 ^ 4" "nat (Year b) < 10 ^ 4"
    and mo: "Month a < 10 ^ 2" "Month b < 10 ^ 2" and d: "Day a < 10 ^ 2" "Day b < 10 ^ 2"
    and h: "Hour a < 10 ^ 2" "Hour b < 10 ^ 2" and mi: "Minute a < 10 ^ 2" "Minute b < 10 ^ 2"
    and s: "Second a < 10 ^ 2" "Second b < 10 ^ 2"
    and u: "Nanosecond a div 1000 < 10 ^ 6" "Nanosecond b div 1000 < 10 ^ 6"
    using assms by (auto simp: wall_clock_def)
  have yr: "nat (Year a) < nat (Year b) \<longleftrightarrow> Year a < Year b"
    "nat (Year a) = nat (Year b) \<longleftrightarrow> Year a = Year b"
    using assms by (auto simp: wall_clock_def)
  note cmp = fixed_less[OF y] fixed_eq[OF y] fixed_less[OF mo] fixed_eq[OF mo]
    fixed_less[OF d] fixed_eq[OF d] fixed_less[OF h] fixed_eq[OF h]
    fixed_less[OF mi] fixed_eq[OF mi] fixed_less[OF s] fixed_eq[OF s] fixed_less[OF u]
  have "Format a < Format b \<longleftrightarrow>
     (nat (Year a) < nat (Year b) \<or> nat (Year a) = nat (Year b) \<and>
      (Month a < Month b \<or> Month a = Month b \<and>
       (Day a < Day b \<or> Day a = Day b \<and>
        (Hour a < Hour b \<or> Hour a = Hour b \<and>
         (Minute a < Minute b \<or> Minute a = Minute b \<and>
          (Second a < Second b \<or> Second a = Second b \<and>
           Nanosecond a div 1000 < Nanosecond b div 1000))))))"
    unfolding Format_fixed[OF assms(1)] Format_fixed[OF assms(2)]
    by (simp only: append_less_iff length_fixed cmp list.inject Cons_less_Cons append_Cons
        append_Nil less_irrefl simp_thms)
  then show ?thesis unfolding before_def yr .
qed


text \<open>
  Where \<open>CreateBackup\<close> writes: once the source is found and the version directory
  is made, the copy goes to \<open>backup_name relPath now\<close> inside
  \<open><backupDir>/<relPath>_versions\<close>.
\<close>

lemma CreateBackup_destination:
  assumes "os_Stat sourcePath w = (st, w1)" and "\<not> os_IsNotExist st"
    and "Rel sourceDir sourcePath = Inr relPath"
    and "os_MkdirAll (Join (backupDir bm) (relPath @ ''_versions'')) 493 w1 = (None, w2)"
  shows "CreateBackup bm sourcePath sourceDir now w =
     (case SafeCopyFile sourcePath
             (Join (Join (backupDir bm) (relPath @ ''_versions'')) (backup_name relPath now)) 3 w2 of
        (Some err, w3) \<Rightarrow> (Returned (Some (Wrapped ''error copying file'' err)), w3)
      | (None, w3) \<Rightarrow>
          (case cleanOldVersions bm (Join (backupDir bm) (relPath @ ''_versions''))
                  (TrimSuffix (Base relPath) (Ext relPath)) (Ext relPath)
                  (logger (LogBackupCreated (Base sourcePath) (backup_name relPath now)) w3) of
             (Returned (Some err), w4) \<Rightarrow>
               (Returned (Some (Wrapped ''error cleaning old versions'' err)), w4)
           | (Returned None, w4) \<Rightarrow> (Returned None, w4)
           | (Panic msg, w4) \<Rightarrow> (Panic msg, w4)))"
  unfolding backup_name_def
  by (simp add: CreateBackup_def Let_def assms split: prod.split option.split outcome.split)

text \<open>
  Claim C6. For wall-clock readings with a four-digit year, the names of two versions
  of the same logical file compare as strings exactly as their times compare
  chronologically at microsecond resolution, and so do the names prefixed with the same
  directory. The name is the base name without its extension, an underscore, the
  timestamp (year, month, day, underscore, hour, minute, second, dot, microseconds,
  each zero-padded to its width) and the extension.
\<close>

theorem backup_name_order:
  assumes "wall_clock t1" and "wall_clock t2"
  shows "(backup_name relPath t1 < backup_name relPath t2 \<longleftrightarrow> before t1 t2) \<and>
         (dir @ ''/'' @ backup_name relPath t1 < dir @ ''/'' @ backup_name relPath t2
            \<longleftrightarrow> before t1 t2) \<and>
         backup_name relPath t1 =
           TrimSuffix (Base relPath) (Ext relPath) @ ''_'' @
           fixed 4 (nat (Year t1)) @ fixed 2 (Month t1) @ fixed 2 (Day t1) @ ''_'' @
           fixed 2 (Hour t1) @ fixed 2 (Minute t1) @ fixed 2 (Second t1) @ ''.'' @
           fixed 6 (Nanosecond t1 div 1000) @ Ext relPath"
proof -
  have len: "length (Format t1) = length (Format t2)"
    by (simp add: Format_fixed[OF assms(1)] Format_fixed[OF assms(2)])
  have fmt: "Format t1 @ e < Format t2 @ e \<longleftrightarrow> before t1 t2" for e
    using append_less_iff[OF len, of e e] Format_less[OF assms] by simp
  have pre: "p @ Format t1 @ e < p @ Format t2 @ e \<longleftrightarrow> before t1 t2" for p e
    using append_less_iff[of p p "Format t1 @ e" "Format t2 @ e"] fmt by simp
  have 1: "backup_name relPath t1 < backup_name relPath t2 \<longleftrightarrow> before t1 t2"
    using pre[of "TrimSuffix (Base relPath) (Ext relPath) @ ''_''" "Ext relPath"]
    by (simp add: backup_name_def)
  have 2: "dir @ ''/'' @ backup_name relPath t1 < dir @ ''/'' @ backup_name relPath t2
            \<longleftrightarrow> before t1 t2"
    using pre[of "dir @ ''/'' @ TrimSuffix (Base relPath) (Ext relPath) @ ''_''" "Ext relPath"]
    by (simp add: backup_name_def)
  have 3: "backup_name relPath t1 =
           TrimSuffix (Base relPath) (Ext relPath) @ ''_'' @
           fixed 4 (nat (Year t1)) @ fixed 2 (Month t1) @ fixed 2 (Day t1) @ ''_'' @
           fixed 2 (Hour t1) @ fixed 2 (Minute t1) @ fixed 2 (Second t1) @ ''.'' @
           fixed 6 (Nanosecond t1 div 1000) @ Ext relPath"
    by (simp add: backup_name_def Format_fixed[OF assms(1)])
  from 1 2 3 show ?thesis by blast
qed

lemma replicate_numeral_expand:
  "replicate (numeral k) x = x # replicate (pred_numeral k) x"
  by (simp add: numeral_eq_Suc)

lemma stamp_names:
  "backup_name ''a.txt'' stamp1 = ''a_20240102_030405.000006.txt''"
  "backup_name ''a.txt'' stamp2 = ''a_20240102_030406.000000.txt''"
  by (simp_all add: backup_name_def Format_def appendInt_def utoa.simps digit_char_def
      stamp1_def stamp2_def Let_def Base_def Ext_def TrimSuffix_def replicate_numeral_expand)

theorem backup_name_order_witness:
  "wall_clock stamp1 \<and> wall_clock stamp2 \<and> before stamp1 stamp2 \<and>
   backup_name ''a.txt'' stamp1 < backup_name ''a.txt'' stamp2 \<and>
   backup_name ''a.txt'' stamp1 = ''a_20240102_030405.000006.txt'' \<and>
   backup_name ''a.txt'' stamp2 = ''a_20240102_030406.000000.txt''"
proof -
  have a: "wall_clock stamp1" by (simp add: wall_clock_def stamp1_def)
  have b: "wall_clock stamp2" by (simp add: wall_clock_def stamp2_def)
  have c: "before stamp1 stamp2" by (simp add: before_def stamp1_def stamp2_def)
  from backup_name_order[OF a b, of "''a.txt''"] c
  have lt: "backup_name ''a.txt'' stamp1 < backup_name ''a.txt'' stamp2" by blast
  from a b c lt stamp_names show ?thesis by blast
qed

section \<open>Worked examples\<close>

lemmas os_defs = os_Stat_def os_Open_def os_Create_def os_Read_def os_Write_def
  os_Chmod_def os_Remove_def os_MkdirAll_def os_IsNotExist_def syscall_def srcFile_bytes_def
  IsDir_def Mode_def ancestors_def mkdir_missing_def has_entries_def

lemma world0_fields:
  "fs world0 = []" "faults world0 = (\<lambda>n. None)" "syscalls world0 = 0" "slept world0 = []"
  "logged world0 = []"
  by (simp_all add: world0_def)

lemma flaky_world_fields:
  "fs flaky_world = [(''/src/a.txt'', File ''hello'' 420)]"
  "faults flaky_world = (\<lambda>n. if n = 4 \<or> n = 9 then Some ENOSPC else None)"
  "syscalls flaky_world = 0" "slept flaky_world = []" "logged flaky_world = []"
  by (simp_all add: flaky_world_def)

lemma chmod_world_fields:
  "fs chmod_world = [(''/src'', Dir 493), (''/src/a.txt'', File ''hello'' 420)]"
  "faults chmod_world = (\<lambda>n. if n = 6 then Some EPERM else None)"
  "syscalls chmod_world = 0" "slept chmod_world = []" "logged chmod_world = []"
  by (simp_all add: chmod_world_def)

lemma os_slept:
  "slept (snd (os_Stat p w)) = slept w"
  "slept (snd (os_Open p w)) = slept w"
  "slept (snd (os_Create p w)) = slept w"
  "slept (snd (snd (os_Read p pending w))) = slept w"
  "slept (snd (os_Write p bytes w)) = slept w"
  "slept (snd (os_Chmod p m w)) = slept w"
  by (auto simp: os_Stat_def os_Open_def os_Create_def os_Read_def os_Write_def os_Chmod_def
      syscall_def split: option.splits node.splits)

lemma copy_loop_slept:
  "copy_loop src dst pending w = (r, w') \<Longrightarrow> slept w' = slept w"
proof (induction src dst pending w rule: copy_loop.induct)
  case (1 src dst pending w)
  obtain chunk rerr w1 where rd: "os_Read src pending w = (chunk, rerr, w1)"
    by (cases "os_Read src pending w") auto
  obtain werr w2 where wr:
    "(if chunk \<noteq> [] then os_Write dst chunk w1 else (None, w1)) = (werr, w2)"
    by (cases "if chunk \<noteq> [] then os_Write dst chunk w1 else (None, w1)") auto
  have s1: "slept w1 = slept w" using os_slept(4)[of src pending w] rd by simp
  have s2: "slept w2 = slept w"
    using wr s1 os_slept(5)[of dst chunk w1] by (auto split: if_splits)
  show ?case
  proof (cases werr)
    case (Some e)
    with "1.prems" rd wr s2 show ?thesis
      by (subst (asm) copy_loop.simps) auto
  next
    case None
    show ?thesis
    proof (cases rerr)
      case (Some e)
      with "1.prems" rd wr None s2 show ?thesis
        by (subst (asm) copy_loop.simps) (auto split: if_splits)
    next
      case noerr: None
      with "1.prems" rd wr None
      have "copy_loop src dst (drop (length chunk) pending) w2 = (r, w')"
        by (subst (asm) copy_loop.simps) auto
      with "1.IH"[OF rd[symmetric] refl wr[symmetric] None noerr] s2 show ?thesis
        by simp
    qed
  qed
qed

lemma copy_attempt_slept: "slept (snd (copy_attempt src dst w)) = slept w"
proof -
  have l: "slept (snd (copy_loop src dst p v)) = slept v" for p v
    using copy_loop_slept[of src dst p v] by (cases "copy_loop src dst p v") auto
  obtain st w1 where st: "os_Stat src w = (st, w1)" by (cases "os_Stat src w")
  obtain o2 w2 where op: "os_Open src w1 = (o2, w2)" by (cases "os_Open src w1")
  obtain o3 w3 where cr: "os_Create dst w2 = (o3, w3)" by (cases "os_Create dst w2")
  obtain o4 w4 where lp: "copy_loop src dst (srcFile_bytes src w3) w3 = (o4, w4)"
    by (cases "copy_loop src dst (srcFile_bytes src w3) w3")
  obtain o5 w5 where ch: "os_Chmod dst (Mode (projr st)) w4 = (o5, w5)"
    by (cases "os_Chmod dst (Mode (projr st)) w4")
  have "slept w1 = slept w" using os_slept(1)[of src w] st by simp
  moreover have "slept w2 = slept w1" using os_slept(2)[of src w1] op by simp
  moreover have "slept w3 = slept w2" using os_slept(3)[of dst w2] cr by simp
  moreover have "slept w4 = slept w3" using l[of "srcFile_bytes src w3" w3] lp by simp
  moreover have "slept w5 = slept w4" using os_slept(6)[of dst "Mode (projr st)" w4] ch by simp
  ultimately show ?thesis
    using st op cr lp ch
    by (auto simp: copy_attempt_def split: sum.splits option.splits)
qed

lemma flaky_copy:
  "fst (SafeCopyFile ''/src/a.txt'' ''/bk/a.txt'' 3 flaky_world) = None"
  "slept (snd (SafeCopyFile ''/src/a.txt'' ''/bk/a.txt'' 3 flaky_world)) = [100000000, 200000000]"
  "fs (snd (SafeCopyFile ''/src/a.txt'' ''/bk/a.txt'' 3 flaky_world)) =
     [(''/src/a.txt'', File ''hello'' 420), (''/bk/a.txt'', File ''hello'' 420)]"
  by (simp_all add: SafeCopyFile_def RetryWithBackoff_def retry_loop.simps copy_attempt_def
      copy_loop.simps os_defs flaky_world_fields IsRetryable_def time_Sleep_def Millisecond_def)

theorem RetryWithBackoff_schedule_witness:
  "(1::int) \<le> 3 \<and>
   (\<exists>n. 1 \<le> n \<and> int n \<le> 3 \<and>
      slept (snd (RetryWithBackoff 3 (100 * Millisecond) (copy_attempt ''/src/a.txt'' ''/bk/a.txt'')
                    flaky_world)) =
        slept flaky_world @ map (\<lambda>j. 100 * Millisecond * 2 ^ j) [0..<n - 1]) \<and>
   fst (SafeCopyFile ''/src/a.txt'' ''/bk/a.txt'' 3 flaky_world) = None \<and>
   slept (snd (SafeCopyFile ''/src/a.txt'' ''/bk/a.txt'' 3 flaky_world)) = [100000000, 200000000]"
proof -
  have a: "(1::int) \<le> 3" by simp
  have q: "\<forall>v. slept (snd (copy_attempt ''/src/a.txt'' ''/bk/a.txt'' v)) = slept v"
    by (simp add: copy_attempt_slept)
  from RetryWithBackoff_schedule[OF a, of "copy_attempt ''/src/a.txt'' ''/bk/a.txt''"
      "100 * Millisecond" flaky_world] q
  have "\<exists>n. 1 \<le> n \<and> int n \<le> 3 \<and>
      slept (snd (RetryWithBackoff 3 (100 * Millisecond) (copy_attempt ''/src/a.txt'' ''/bk/a.txt'')
                    flaky_world)) =
        slept flaky_world @ map (\<lambda>j. 100 * Millisecond * 2 ^ j) [0..<n - 1]"
    by blast
  with a flaky_copy show ?thesis by simp
qed

theorem CreateBackup_source_missing_witness:
  "os_IsNotExist (fst (os_Stat ''/src/a.txt'' world0)) \<and>
   CreateBackup (NewBackupManager ''/bk'' 3) ''/src/a.txt'' ''/src'' stamp1 world0 =
     (Returned (Some (ErrorsNew ''source file does not exist: /src/a.txt'')),
      world0\<lparr>syscalls := Suc (syscalls world0)\<rparr>)"
proof -
  have a: "os_IsNotExist (fst (os_Stat ''/src/a.txt'' world0))"
    by (simp add: os_defs world0_fields)
  from CreateBackup_source_missing[OF a, of "NewBackupManager ''/bk'' 3" "''/src''" stamp1] a
  show ?thesis by simp
qed

lemma stat_missing_example: "os_Stat ''/src/a.txt'' world0 =
    (Inl (PathError ''stat'' ''/src/a.txt'' ENOENT), world0\<lparr>syscalls := 1\<rparr>)"
  by (simp add: os_defs world0_fields)

lemma stat_directory_example: "os_Stat ''/src'' chmod_world = (Inr (Dir 493), chmod_world\<lparr>syscalls := 1\<rparr>)"
  "IsDir (Dir 493)"
  by (simp_all add: os_defs chmod_world_fields)

lemma write_failure_example: "copy_loop ''/src/a.txt'' ''/bk/a.txt'' ''hello'' (flaky_world\<lparr>syscalls := 3\<rparr>) =
    (Some (BackupError ''/bk/a.txt'' ''write'' (PathError ''write'' ''/bk/a.txt'' ENOSPC) True),
     flaky_world\<lparr>syscalls := 5\<rparr>)"
  by (simp add: copy_loop.simps os_defs flaky_world_fields)

lemma chmod_failure_example:
  "os_Stat ''/src/a.txt'' chmod_world = (Inr (File ''hello'' 420), chmod_world\<lparr>syscalls := 1\<rparr>)"
  "\<not> IsDir (File ''hello'' 420)"
  "os_Open ''/src/a.txt'' (chmod_world\<lparr>syscalls := 1\<rparr>) = (None, chmod_world\<lparr>syscalls := 2\<rparr>)"
  "os_Create ''/bk/a.txt'' (chmod_world\<lparr>syscalls := 2\<rparr>) =
     (None, chmod_world\<lparr>syscalls := 3, fs := fs chmod_world @ [(''/bk/a.txt'', File [] 420)]\<rparr>)"
  "srcFile_bytes ''/src/a.txt''
     (chmod_world\<lparr>syscalls := 3, fs := fs chmod_world @ [(''/bk/a.txt'', File [] 420)]\<rparr>) = ''hello''"
  "copy_loop ''/src/a.txt'' ''/bk/a.txt'' ''hello''
     (chmod_world\<lparr>syscalls := 3, fs := fs chmod_world @ [(''/bk/a.txt'', File [] 420)]\<rparr>) =
     (None, chmod_world\<lparr>syscalls := 6, fs := fs chmod_world @ [(''/bk/a.txt'', File ''hello'' 420)]\<rparr>)"
  "os_Chmod ''/bk/a.txt'' (Mode (File ''hello'' 420))
     (chmod_world\<lparr>syscalls := 6, fs := fs chmod_world @ [(''/bk/a.txt'', File ''hello'' 420)]\<rparr>) =
     (Some (PathError ''chmod'' ''/bk/a.txt'' EPERM),
      chmod_world\<lparr>syscalls := 7, fs := fs chmod_world @ [(''/bk/a.txt'', File ''hello'' 420)]\<rparr>)"
  by (simp_all add: copy_loop.simps os_defs chmod_world_fields)


theorem copy_attempt_classification_witness:
  "os_Stat ''/src/a.txt'' world0 =
     (Inl (PathError ''stat'' ''/src/a.txt'' ENOENT), world0\<lparr>syscalls := 1\<rparr>) \<and>
   (\<exists>err. copy_attempt ''/src/a.txt'' ''/bk/a.txt'' world0 = (Some err, world0\<lparr>syscalls := 1\<rparr>) \<and>
          Operation err = ''stat_source'' \<and> \<not> IsRetryable err) \<and>
   (\<exists>err. copy_attempt ''/src'' ''/bk/a.txt'' chmod_world = (Some err, chmod_world\<lparr>syscalls := 1\<rparr>) \<and>
          Operation err = ''check_type'' \<and> \<not> IsRetryable err) \<and>
   IsRetryable (BackupError ''/bk/a.txt'' ''write'' (PathError ''write'' ''/bk/a.txt'' ENOSPC) True) \<and>
   fst (os_Chmod ''/bk/a.txt'' (Mode (File ''hello'' 420))
     (chmod_world\<lparr>syscalls := 6, fs := fs chmod_world @ [(''/bk/a.txt'', File ''hello'' 420)]\<rparr>)) =
     Some (PathError ''chmod'' ''/bk/a.txt'' EPERM) \<and>
   fst (copy_attempt ''/src/a.txt'' ''/bk/a.txt'' chmod_world) = None"
proof -
  note a = copy_attempt_classification[of "''/src/a.txt''" world0 ENOENT "world0\<lparr>syscalls := 1\<rparr>"
      "''/bk/a.txt''"]
  note b = copy_attempt_classification[of "''/src''" chmod_world _ "chmod_world\<lparr>syscalls := 1\<rparr>"
      "''/bk/a.txt''" "Dir 493"]
  note c = copy_attempt_classification[of "''/src/a.txt''" "flaky_world\<lparr>syscalls := 3\<rparr>" _ _
      "''/bk/a.txt''" _ "''hello''"
      "BackupError ''/bk/a.txt'' ''write'' (PathError ''write'' ''/bk/a.txt'' ENOSPC) True"
      "flaky_world\<lparr>syscalls := 5\<rparr>"]
  note d = copy_attempt_classification[of "''/src/a.txt''" chmod_world _
      "chmod_world\<lparr>syscalls := 1\<rparr>" "''/bk/a.txt''" "File ''hello'' 420" _ _ _
      "chmod_world\<lparr>syscalls := 2\<rparr>"
      "chmod_world\<lparr>syscalls := 3, fs := fs chmod_world @ [(''/bk/a.txt'', File [] 420)]\<rparr>"
      "chmod_world\<lparr>syscalls := 6, fs := fs chmod_world @ [(''/bk/a.txt'', File ''hello'' 420)]\<rparr>"]
  from a stat_missing_example have 1: "\<exists>err. copy_attempt ''/src/a.txt'' ''/bk/a.txt'' world0 =
        (Some err, world0\<lparr>syscalls := 1\<rparr>) \<and> Operation err = ''stat_source'' \<and> \<not> IsRetryable err"
    by simp
  from b stat_directory_example have 2: "\<exists>err. copy_attempt ''/src'' ''/bk/a.txt'' chmod_world =
        (Some err, chmod_world\<lparr>syscalls := 1\<rparr>) \<and> Operation err = ''check_type'' \<and> \<not> IsRetryable err"
    by blast
  from c write_failure_example have 3:
    "IsRetryable (BackupError ''/bk/a.txt'' ''write'' (PathError ''write'' ''/bk/a.txt'' ENOSPC) True)"
    by blast
  from d chmod_failure_example have 4: "fst (copy_attempt ''/src/a.txt'' ''/bk/a.txt'' chmod_world) = None"
    by simp
  from 1 2 3 4 stat_missing_example chmod_failure_example(7) show ?thesis by simp
qed

lemma evict_world_fields:
  "fs evict_world = [(''/src'', Dir 493), (''/src/a.txt'', File ''hello'' 420), (''/bk'', Dir 493),
            (''/bk/a.txt_versions'', Dir 493),
            (''/bk/a.txt_versions/a_20240101_000000.000000.txt'', File ''hi'' 420)]"
  "faults evict_world = (\<lambda>n. if n = 10 then Some EACCES else None)"
  "syscalls evict_world = 0" "slept evict_world = []" "logged evict_world = []"
  by (simp_all add: evict_world_def)

lemma Format_stamp1: "Format stamp1 = ''20240102_030405.000006''"
  by (simp add: Format_def appendInt_def utoa.simps digit_char_def stamp1_def Let_def
      replicate_numeral_expand)

lemma plain_paths:
  "Rel ''/src'' ''/src/a.txt'' = Inr ''a.txt''"
  "Ext ''a.txt'' = ''.txt''"
  "Base ''a.txt'' = ''a.txt''"
  "Base ''/src/a.txt'' = ''a.txt''"
  "TrimSuffix ''a.txt'' ''.txt'' = ''a''"
  "Join ''/bk'' ''a.txt_versions'' = ''/bk/a.txt_versions''"
  "Join ''/bk/a.txt_versions'' ''a_20240102_030405.000006.txt'' =
     ''/bk/a.txt_versions/a_20240102_030405.000006.txt''"
  "Join ''/bk/a.txt_versions'' ''a_*.txt'' = ''/bk/a.txt_versions/a_*.txt''"
  by (simp_all add: Rel_def Clean_def elements_def Let_def Ext_def Base_def TrimSuffix_def Join_def)

lemma evict_stat:
  "os_Stat ''/src/a.txt'' evict_world = (Inr (File ''hello'' 420), evict_world\<lparr>syscalls := 1\<rparr>)"
  by (simp add: os_defs evict_world_fields)

lemma evict_mkdir:
  "os_MkdirAll ''/bk/a.txt_versions'' 493 (evict_world\<lparr>syscalls := 1\<rparr>) =
     (None, evict_world\<lparr>syscalls := 2\<rparr>)"
  by (simp add: os_defs evict_world_fields)

lemma evict_copy:
  "SafeCopyFile ''/src/a.txt'' ''/bk/a.txt_versions/a_20240102_030405.000006.txt'' 3
     (evict_world\<lparr>syscalls := 2\<rparr>) = (None, evict_copied)"
  by (simp add: SafeCopyFile_def RetryWithBackoff_def retry_loop.simps copy_attempt_def
      copy_loop.simps os_defs evict_world_fields evict_copied_def)

lemma evict_versions:
  "version_files ''/bk/a.txt_versions'' ''a'' ''.txt'' evict_copied =
     [''/bk/a.txt_versions/a_20240101_000000.000000.txt'',
      ''/bk/a.txt_versions/a_20240102_030405.000006.txt'']"
  by (simp add: version_files_def plain_paths glob_match_def Match_def parse_terms.simps
      evict_copied_def evict_world_fields)

lemma evict_clean:
  "cleanOldVersions (NewBackupManager ''/bk'' 1) ''/bk/a.txt_versions'' ''a'' ''.txt''
     (logger (LogBackupCreated ''a.txt'' ''a_20240102_030405.000006.txt'') evict_copied) =
   (Returned (Some (PathError ''remove'' ''/bk/a.txt_versions/a_20240101_000000.000000.txt'' EACCES)),
    evict_copied\<lparr>syscalls := 11,
      logged := [LogBackupCreated ''a.txt'' ''a_20240102_030405.000006.txt'']\<rparr>)"
  by (simp add: cleanOldVersions_def plain_paths Glob_def NewBackupManager_def glob_match_def
      Match_def parse_terms.simps class_ranges.simps os_defs logger_def
      evict_copied_def evict_world_fields)


theorem CreateBackup_eviction_failure_witness:
  "1 \<le> maxVersions (NewBackupManager ''/bk'' 1) \<and>
   CreateBackup (NewBackupManager ''/bk'' 1) ''/src/a.txt'' ''/src'' stamp1 evict_world =
     (Returned (Some (Wrapped ''error cleaning old versions''
        (PathError ''remove'' ''/bk/a.txt_versions/a_20240101_000000.000000.txt'' EACCES))),
      evict_copied\<lparr>syscalls := 11,
        logged := [LogBackupCreated ''a.txt'' ''a_20240102_030405.000006.txt'']\<rparr>) \<and>
   map_of (fs (evict_copied\<lparr>syscalls := 11,
        logged := [LogBackupCreated ''a.txt'' ''a_20240102_030405.000006.txt'']\<rparr>))
     ''/bk/a.txt_versions/a_20240102_030405.000006.txt'' = Some (File ''hello'' 420)"
proof -
  have v: "1 \<le> maxVersions (NewBackupManager ''/bk'' 1)" by (simp add: NewBackupManager_def)
  have ne: "\<not> os_IsNotExist (Inr (File ''hello'' 420))" by (simp add: os_IsNotExist_def)
  have newest: "\<forall>q \<in> set (version_files ''/bk/a.txt_versions'' ''a'' ''.txt'' evict_copied).
                  q \<le> ''/bk/a.txt_versions/a_20240102_030405.000006.txt''"
    by (simp add: evict_versions)
  have kept: "map_of (fs evict_copied) ''/bk/a.txt_versions/a_20240102_030405.000006.txt'' =
                Some (File ''hello'' 420)"
    by (simp add: evict_copied_def evict_world_fields)
  from CreateBackup_eviction_failure[where bm = "NewBackupManager ''/bk'' 1"
      and sourcePath = "''/src/a.txt''" and sourceDir = "''/src''" and now = stamp1
      and w = evict_world and st = "Inr (File ''hello'' 420)"
      and ?w1.0 = "evict_world\<lparr>syscalls := 1\<rparr>" and relPath = "''a.txt''"
      and ext = "''.txt''" and baseName = "''a''"
      and backupName = "''a_20240102_030405.000006.txt''"
      and dir = "''/bk/a.txt_versions''"
      and backupPath = "''/bk/a.txt_versions/a_20240102_030405.000006.txt''"
      and ?w2.0 = "evict_world\<lparr>syscalls := 2\<rparr>"
      and ?w3.0 = evict_copied
      and err = "PathError ''remove'' ''/bk/a.txt_versions/a_20240101_000000.000000.txt'' EACCES"
      and ?w4.0 = "evict_copied\<lparr>syscalls := 11,
        logged := [LogBackupCreated ''a.txt'' ''a_20240102_030405.000006.txt'']\<rparr>",
      OF v evict_stat ne plain_paths(1) _ _ _ _ _ evict_mkdir evict_copy newest]
    evict_clean kept v
  show ?thesis
    by (simp add: plain_paths Format_stamp1 NewBackupManager_def)
qed

lemma NewBackupManager_fields:
  "backupDir (NewBackupManager d v) = d" "maxVersions (NewBackupManager d v) = v"
  by (simp_all add: NewBackupManager_def)

lemma bracket_world_fields:
  "fs bracket_world = [(''/src'', Dir 493), (''/src/a[1].txt'', File ''hello'' 420), (''/bk'', Dir 493),
            (''/bk/a[1].txt_versions'', Dir 493),
            (''/bk/a[1].txt_versions/a[1]_20240101_000000.000000.txt'', File ''hi'' 420)]"
  "faults bracket_world = (\<lambda>n. None)"
  "syscalls bracket_world = 0" "slept bracket_world = []" "logged bracket_world = []"
  by (simp_all add: bracket_world_def)

lemma bracket_paths:
  "Rel ''/src'' ''/src/a[1].txt'' = Inr ''a[1].txt''"
  "Ext ''a[1].txt'' = ''.txt''"
  "Base ''a[1].txt'' = ''a[1].txt''"
  "Base ''/src/a[1].txt'' = ''a[1].txt''"
  "TrimSuffix ''a[1].txt'' ''.txt'' = ''a[1]''"
  "Join ''/bk'' ''a[1].txt_versions'' = ''/bk/a[1].txt_versions''"
  "Join ''/bk/a[1].txt_versions'' ''a[1]_20240102_030405.000006.txt'' =
     ''/bk/a[1].txt_versions/a[1]_20240102_030405.000006.txt''"
  "Join ''/bk/a[1].txt_versions'' ''a[1]_*.txt'' = ''/bk/a[1].txt_versions/a[1]_*.txt''"
  by (simp_all add: Rel_def Clean_def elements_def Let_def Ext_def Base_def TrimSuffix_def Join_def)

lemma bracket_stat:
  "os_Stat ''/src/a[1].txt'' bracket_world =
     (Inr (File ''hello'' 420), bracket_world\<lparr>syscalls := 1\<rparr>)"
  by (simp add: os_defs bracket_world_fields)

lemma bracket_mkdir:
  "os_MkdirAll ''/bk/a[1].txt_versions'' 493 (bracket_world\<lparr>syscalls := 1\<rparr>) =
     (None, bracket_world\<lparr>syscalls := 2\<rparr>)"
  by (simp add: os_defs bracket_world_fields)

lemma bracket_copy:
  "SafeCopyFile ''/src/a[1].txt'' ''/bk/a[1].txt_versions/a[1]_20240102_030405.000006.txt'' 3
     (bracket_world\<lparr>syscalls := 2\<rparr>) = (None, bracket_copied)"
  by (simp add: SafeCopyFile_def RetryWithBackoff_def retry_loop.simps copy_attempt_def
      copy_loop.simps os_defs bracket_world_fields bracket_copied_def)

lemma bracket_clean:
  "cleanOldVersions (NewBackupManager ''/bk'' 1) ''/bk/a[1].txt_versions'' ''a[1]'' ''.txt''
     (logger (LogBackupCreated ''a[1].txt'' ''a[1]_20240102_030405.000006.txt'') bracket_copied) =
   (Returned None,
    bracket_copied\<lparr>syscalls := 10,
      logged := [LogBackupCreated ''a[1].txt'' ''a[1]_20240102_030405.000006.txt'']\<rparr>)"
  by (simp add: cleanOldVersions_def bracket_paths Glob_def NewBackupManager_def glob_match_def
      Match_def parse_terms.simps class_ranges.simps os_defs logger_def
      bracket_copied_def bracket_world_fields)

text \<open>
  Claim C1 at a failing input. The source is \<open>/src/a[1].txt\<close>, the version cap is 1
  and the version directory already holds one version. \<open>cleanOldVersions\<close> globs for
  \<open>a[1]_*.txt\<close>, where \<open>[1]\<close> is a character class: the pattern matches none of the
  versions of this file, nothing is removed, and \<open>CreateBackup\<close> returns nil with two
  version files in the directory.
\<close>

theorem CreateBackup_bracket_name_exceeds_maxVersions:
  "maxVersions (NewBackupManager ''/bk'' 1) = 1 \<and>
   CreateBackup (NewBackupManager ''/bk'' 1) ''/src/a[1].txt'' ''/src'' stamp1 bracket_world =
     (Returned None,
      bracket_copied\<lparr>syscalls := 10,
        logged := [LogBackupCreated ''a[1].txt'' ''a[1]_20240102_030405.000006.txt'']\<rparr>) \<and>
   map fst (fs (bracket_copied\<lparr>syscalls := 10,
        logged := [LogBackupCreated ''a[1].txt'' ''a[1]_20240102_030405.000006.txt'']\<rparr>)) =
     [''/src'', ''/src/a[1].txt'', ''/bk'', ''/bk/a[1].txt_versions'',
      ''/bk/a[1].txt_versions/a[1]_20240101_000000.000000.txt'',
      ''/bk/a[1].txt_versions/a[1]_20240102_030405.000006.txt'']"
proof -
  have run: "CreateBackup (NewBackupManager ''/bk'' 1) ''/src/a[1].txt'' ''/src'' stamp1 bracket_world =
     (Returned None,
      bracket_copied\<lparr>syscalls := 10,
        logged := [LogBackupCreated ''a[1].txt'' ''a[1]_20240102_030405.000006.txt'']\<rparr>)"
    unfolding CreateBackup_def
    by (simp add: bracket_stat os_IsNotExist_def bracket_paths Format_stamp1 Let_def
        bracket_mkdir bracket_copy bracket_clean NewBackupManager_fields del: One_nat_def)
  have files: "map fst (fs (bracket_copied\<lparr>syscalls := 10,
        logged := [LogBackupCreated ''a[1].txt'' ''a[1]_20240102_030405.000006.txt'']\<rparr>)) =
     [''/src'', ''/src/a[1].txt'', ''/bk'', ''/bk/a[1].txt_versions'',
      ''/bk/a[1].txt_versions/a[1]_20240101_000000.000000.txt'',
      ''/bk/a[1].txt_versions/a[1]_20240102_030405.000006.txt'']"
    by (simp add: bracket_copied_def bracket_world_fields)
  from run files show ?thesis by (simp add: NewBackupManager_def)
qed

end
